theory Spec2Isabelle
  imports Main "HOL-Library.Word" "HOL-Library.AList"
begin

unbundle bit_operations_syntax

section \<open>Go strings as byte sequences\<close>

text \<open>
  A Go string is a sequence of bytes; \<open>string\<close> (a list of 8-bit \<open>char\<close>) is the same
  thing. \<open>len\<close> is \<open>length\<close>, \<open>s[i:j]\<close> is \<open>take\<close>/\<open>drop\<close>, and the functions of
  package \<open>strings\<close> that \<open>internal/livereload/manager.go\<close> calls are written out below.
  Bytes and runes are read as natural numbers.
\<close>

type_synonym rune = nat

definition RuneError :: rune where
  "RuneError = 0xFFFD"

definition MaxRune :: rune where
  "MaxRune = 0x10FFFF"

text \<open>
  \<open>utf8.DecodeRuneInString\<close>: the first rune of a byte sequence and its width. The lead
  byte fixes the width and the range accepted for the second byte; every malformed or
  truncated sequence decodes as \<open>(RuneError, 1)\<close>, the empty string as \<open>(RuneError, 0)\<close>.
\<close>

definition leadByte :: "nat \<Rightarrow> (nat \<times> nat \<times> nat) option" where
  "leadByte b =
     (if 0xC2 \<le> b \<and> b \<le> 0xDF then Some (2, 0x80, 0xBF)
      else if b = 0xE0 then Some (3, 0xA0, 0xBF)
      else if b = 0xED then Some (3, 0x80, 0x9F)
      else if 0xE1 \<le> b \<and> b \<le> 0xEF then Some (3, 0x80, 0xBF)
      else if b = 0xF0 then Some (4, 0x90, 0xBF)
      else if 0xF1 \<le> b \<and> b \<le> 0xF3 then Some (4, 0x80, 0xBF)
      else if b = 0xF4 then Some (4, 0x80, 0x8F)
      else None)"

definition contByte :: "nat \<Rightarrow> bool" where
  "contByte b = (0x80 \<le> b \<and> b \<le> 0xBF)"

definition DecodeRune :: "nat list \<Rightarrow> rune \<times> nat" where
  "DecodeRune s =
     (case s of
        [] \<Rightarrow> (RuneError, 0)
      | s0 # r \<Rightarrow>
          if s0 < 0x80 then (s0, 1)
          else (case leadByte s0 of
            None \<Rightarrow> (RuneError, 1)
          | Some (sz, lo, hi) \<Rightarrow>
              if length s < sz then (RuneError, 1)
              else let s1 = r ! 0 in
                if s1 < lo \<or> hi < s1 then (RuneError, 1)
                else if sz \<le> 2 then ((s0 mod 32) * 64 + s1 mod 64, 2)
                else let s2 = r ! 1 in
                  if \<not> contByte s2 then (RuneError, 1)
                  else if sz \<le> 3 then ((s0 mod 16) * 4096 + (s1 mod 64) * 64 + s2 mod 64, 3)
                  else let s3 = r ! 2 in
                    if \<not> contByte s3 then (RuneError, 1)
                    else ((s0 mod 8) * 262144 + (s1 mod 64) * 4096 + (s2 mod 64) * 64
                            + s3 mod 64, 4)))"

text \<open>\<open>utf8.AppendRune\<close>: surrogates and values above \<open>MaxRune\<close> are written as \<open>RuneError\<close>.\<close>

definition EncodeRune :: "rune \<Rightarrow> nat list" where
  "EncodeRune r =
     (if r \<le> 0x7F then [r]
      else if r \<le> 0x7FF then [0xC0 + r div 64, 0x80 + r mod 64]
      else if r > MaxRune \<or> (0xD800 \<le> r \<and> r \<le> 0xDFFF) then [0xEF, 0xBF, 0xBD]
      else if r \<le> 0xFFFF then [0xE0 + r div 4096, 0x80 + (r div 64) mod 64, 0x80 + r mod 64]
      else [0xF0 + r div 262144, 0x80 + (r div 4096) mod 64, 0x80 + (r div 64) mod 64,
            0x80 + r mod 64])"

text \<open>The runes of a string, as \<open>for _, c := range s\<close> yields them.\<close>

function rangeRunes :: "nat list \<Rightarrow> rune list" where
  "rangeRunes s =
     (if s = [] then []
      else fst (DecodeRune s) # rangeRunes (drop (max 1 (snd (DecodeRune s))) s))"
  by pat_completeness auto
termination
  by (relation "measure length") auto

declare rangeRunes.simps [simp del]

definition bytes_of :: "string \<Rightarrow> nat list" where
  "bytes_of s = map of_char s"

definition string_of :: "nat list \<Rightarrow> string" where
  "string_of bs = map char_of bs"

text \<open>
  \<open>strings.Map\<close>: every rune of the string is mapped and written back in UTF-8. A byte that
  is not part of a well-formed sequence is read as \<open>RuneError\<close> and therefore written as
  the three bytes of U+FFFD; a well-formed rune that the mapping leaves alone is written
  as it was read. (A negative result drops the rune; the mappings used here never give
  one.)
\<close>

definition strings_Map :: "(rune \<Rightarrow> rune) \<Rightarrow> string \<Rightarrow> string" where
  "strings_Map mapping s =
     string_of (concat (map (\<lambda>c. EncodeRune (mapping c)) (rangeRunes (bytes_of s))))"

text \<open>
  \<open>unicode.ToLower\<close>: ASCII is handled by arithmetic; above ASCII the result comes from
  the case tables of package \<open>unicode\<close>, which are not part of this repository and are
  taken as the parameter \<open>tbl\<close>.
\<close>

definition unicode_ToLower :: "(rune \<Rightarrow> rune) \<Rightarrow> rune \<Rightarrow> rune" where
  "unicode_ToLower tbl r =
     (if r \<le> 0x7F then (if 0x41 \<le> r \<and> r \<le> 0x5A then r + 32 else r) else tbl r)"

definition asciiLower :: "char \<Rightarrow> char" where
  "asciiLower c =
     (if (0x41::nat) \<le> of_char c \<and> of_char c \<le> (0x5A::nat)
      then char_of (of_char c + (32::nat)) else c)"

definition isASCII :: "string \<Rightarrow> bool" where
  "isASCII s = (\<forall>c \<in> set s. (of_char c :: nat) < 0x80)"

text \<open>
  \<open>strings.ToLower\<close>: a string of ASCII bytes is lowered byte by byte; any other string
  goes through \<open>strings.Map\<close>, so its length in bytes may change.
\<close>

definition ToLower :: "(rune \<Rightarrow> rune) \<Rightarrow> string \<Rightarrow> string" where
  "ToLower tbl s =
     (if isASCII s then map asciiLower s else strings_Map (unicode_ToLower tbl) s)"

text \<open>
  An excerpt of the lower-case table, for evaluating examples: the capital letters of
  Latin-1, U+0130 (capital I with dot above, lowered to \<open>i\<close>) and U+212A (the Kelvin sign,
  lowered to \<open>k\<close>); every other rune is left alone.
\<close>

definition caseTableSample :: "rune \<Rightarrow> rune" where
  "caseTableSample r =
     (if 0xC0 \<le> r \<and> r \<le> 0xDE \<and> r \<noteq> 0xD7 then r + 32
      else if r = 0x130 then 0x69
      else if r = 0x212A then 0x6B
      else r)"

text \<open>
  \<open>strings.HasPrefix\<close>, \<open>strings.Contains\<close> and \<open>strings.LastIndex\<close>: the index of the
  last place where \<open>sub\<close> starts in \<open>s\<close>, \<open>-1\<close> when there is none. The scan keeps the
  last match seen so far.
\<close>

definition HasPrefix :: "string \<Rightarrow> string \<Rightarrow> bool" where
  "HasPrefix s pre = (take (length pre) s = pre)"

fun Contains :: "string \<Rightarrow> string \<Rightarrow> bool" where
  "Contains [] sub = (sub = [])"
| "Contains (c # s) sub = (HasPrefix (c # s) sub \<or> Contains s sub)"

fun lastIndexScan :: "string \<Rightarrow> string \<Rightarrow> nat \<Rightarrow> int \<Rightarrow> int" where
  "lastIndexScan [] sub i found = (if sub = [] then int i else found)"
| "lastIndexScan (c # s) sub i found =
     lastIndexScan s sub (Suc i) (if HasPrefix (c # s) sub then int i else found)"

definition LastIndex :: "string \<Rightarrow> string \<Rightarrow> int" where
  "LastIndex s sub = lastIndexScan s sub 0 (-1)"

text \<open>
  \<open>unicode.IsSpace\<close>: in Latin-1 the six ASCII white-space bytes, U+0085 and U+00A0; above
  Latin-1 the code points with the White_Space property.
\<close>

definition unicode_IsSpace :: "rune \<Rightarrow> bool" where
  "unicode_IsSpace r =
     (if r \<le> 0xFF then r \<in> {0x09, 0x0A, 0x0B, 0x0C, 0x0D, 0x20, 0x85, 0xA0}
      else r = 0x1680 \<or> (0x2000 \<le> r \<and> r \<le> 0x200A) \<or> r = 0x2028 \<or> r = 0x2029
           \<or> r = 0x202F \<or> r = 0x205F \<or> r = 0x3000)"

text \<open>\<open>strings.TrimLeftFunc(s, unicode.IsSpace)\<close> on bytes: drop leading white-space runes.\<close>

function trimLeftSpace :: "nat list \<Rightarrow> nat list" where
  "trimLeftSpace s =
     (if s = [] then []
      else if unicode_IsSpace (fst (DecodeRune s))
        then trimLeftSpace (drop (max 1 (snd (DecodeRune s))) s)
      else s)"
  by pat_completeness auto
termination
  by (relation "measure length") auto

declare trimLeftSpace.simps [simp del]

text \<open>
  \<open>utf8.DecodeLastRuneInString\<close>: the last rune of a byte sequence and its width, found by
  stepping back at most three bytes to a byte that can start a rune.
\<close>

definition RuneStart :: "nat \<Rightarrow> bool" where
  "RuneStart b = (\<not> contByte b)"

fun backToStart :: "nat list \<Rightarrow> nat \<Rightarrow> nat \<Rightarrow> nat" where
  "backToStart s lim start =
     (if start < lim then start
      else if RuneStart (s ! start) then start
      else (case start of 0 \<Rightarrow> 0 | Suc k \<Rightarrow> backToStart s lim k))"

definition DecodeLastRune :: "nat list \<Rightarrow> rune \<times> nat" where
  "DecodeLastRune s =
     (let end = length s in
      if end = 0 then (RuneError, 0)
      else if s ! (end - 1) < 0x80 then (s ! (end - 1), 1)
      else if end = 1 then (RuneError, 1)
      else
        let lim = end - 4;
            start = backToStart s lim (end - 2);
            (r, size) = DecodeRune (drop start s)
        in if start + size \<noteq> end then (RuneError, 1) else (r, size))"

text \<open>\<open>strings.TrimRightFunc(s, unicode.IsSpace)\<close> on bytes: drop trailing white-space runes.\<close>

function trimRightSpace :: "nat list \<Rightarrow> nat list" where
  "trimRightSpace s =
     (if s = [] then []
      else if unicode_IsSpace (fst (DecodeLastRune s))
        then trimRightSpace (take (length s - max 1 (snd (DecodeLastRune s))) s)
      else s)"
  by pat_completeness auto
termination
  by (relation "measure length") auto

declare trimRightSpace.simps [simp del]

text \<open>\<open>strings.TrimSpace\<close>: white space, in the sense of Unicode, removed at both ends.\<close>

definition TrimSpace :: "string \<Rightarrow> string" where
  "TrimSpace s = string_of (trimRightSpace (trimLeftSpace (bytes_of s)))"

text \<open>
  \<open>filepath.Ext\<close>: the suffix of the path from the last dot of its last element, empty when
  that element has no dot. The path separator is \<open>/\<close>.
\<close>

fun extFrom :: "string \<Rightarrow> string \<Rightarrow> string" where
  "extFrom [] acc = []"
| "extFrom (c # revPath) acc =
     (if c = CHR ''/'' then []
      else if c = CHR ''.'' then c # acc
      else extFrom revPath (c # acc))"

definition filepath_Ext :: "string \<Rightarrow> string" where
  "filepath_Ext path = extFrom (rev path) []"

text \<open>
  \<open>strings.EqualFold(ext, ".php")\<close>: equality under simple case folding. The only runes
  that fold to \<open>.\<close>, \<open>p\<close> or \<open>h\<close> are these and the capitals \<open>P\<close> and \<open>H\<close>, so against this
  constant the comparison is that of the ASCII-lowered bytes.
\<close>

definition EqualFold_php :: "string \<Rightarrow> bool" where
  "EqualFold_php ext = (map asciiLower ext = ''.php'')"

text \<open>\<open>%d\<close> of \<open>fmt.Sprintf\<close>: a Go \<open>int\<close> in decimal.\<close>

fun natDec :: "nat \<Rightarrow> string" where
  "natDec n = (if n < 10 then [char_of (48 + n)] else natDec (n div 10) @ [char_of (48 + n mod 10)])"

declare natDec.simps [simp del]

definition Sprintf_d :: "int \<Rightarrow> string" where
  "Sprintf_d i = (if i < 0 then CHR ''-'' # natDec (nat (- i)) else natDec (nat i))"


section \<open>Panics and errors\<close>

text \<open>
  A Go panic ends the call; it is the left summand of the result. An \<open>error\<close> value
  returned by a function is \<open>Some\<close> message, \<open>nil\<close> is \<open>None\<close>.
\<close>

datatype panic = SliceOutOfRange | CloseOfClosedChannel | SendOnClosedChannel

type_synonym error = "string option"

section \<open>The client script and the injection into an entry file\<close>

record Project =
  ID :: string
  Path :: string
  DocumentRoot :: string

definition DefaultPort :: int where
  "DefaultPort = 35730"

definition EndpointURL :: "int \<Rightarrow> string \<Rightarrow> string" where
  "EndpointURL port projectID =
     ''http://127.0.0.1:'' @ Sprintf_d port @ ''/events?project='' @ projectID"

definition ClientScript :: "int \<Rightarrow> string \<Rightarrow> string" where
  "ClientScript port projectID =
     ''<script>\<newline>(function(){\<newline>  try {\<newline>    var es = new EventSource(''
     @ [CHR 0x27] @ EndpointURL port projectID @ [CHR 0x27]
     @ '');\<newline>    es.onmessage = function(){ location.reload(); };\<newline>''
     @ ''    es.onerror = function(){};\<newline>  } catch (e) {}\<newline>})();\<newline></script>''"

definition marker :: string where
  "marker = ''GoLocal LiveReload''"

definition injectBlock :: "string \<Rightarrow> string \<Rightarrow> string" where
  "injectBlock mk script = ''\<newline><!-- '' @ mk @ '' -->\<newline>'' @ script @ ''\<newline>''"

definition phpMarker :: "string \<Rightarrow> string" where
  "phpMarker mk = ''\<newline>\<newline>/* '' @ mk @ '' */\<newline>?>\<newline>''"

text \<open>
  \<open>injectIntoHTML\<close>. The index of the closing body tag is searched in the lowered copy
  of the content and then used to cut the content itself: \<open>src[:idx]\<close> panics when
  \<open>idx\<close> is beyond the content's length.
\<close>

definition injectIntoHTML ::
  "(rune \<Rightarrow> rune) \<Rightarrow> string \<Rightarrow> string \<Rightarrow> string \<Rightarrow> string \<Rightarrow> panic + (string \<times> bool)" where
  "injectIntoHTML tbl filename src script mk =
     (let lower = ToLower tbl src;
          idx = LastIndex lower ''</body>''
      in if idx \<ge> 0 then
           (if nat idx > length src then Inl SliceOutOfRange
            else Inr (take (nat idx) src @ injectBlock mk script @ drop (nat idx) src, True))
         else if Contains lower ''<html'' \<or> Contains lower ''<!doctype'' \<or> Contains lower ''<body''
           then Inr (src @ injectBlock mk script, True)
         else if EqualFold_php (filepath_Ext filename) then
           (let trimmed = TrimSpace src;
                lastClose = LastIndex trimmed ''?>'';
                lastOpen = LastIndex trimmed ''<?'';
                endsInPHPMode = (lastOpen > lastClose)
            in if endsInPHPMode then Inr (src @ phpMarker mk @ script @ ''\<newline>'', True)
               else Inr (src @ ''\<newline>'' @ script @ ''\<newline>'', True))
         else Inr (src, False))"

text \<open>
  The file system as \<open>TryInjectScript\<close> sees it: a map from paths to contents.
  \<open>os.ReadFile\<close> fails where the map is undefined. Whether \<open>os.WriteFile\<close> and
  \<open>os.Rename\<close> fail is decided outside the program; the two oracles give the error, if
  any, for a path.
\<close>

type_synonym files = "string \<rightharpoonup> string"

record ioOracle =
  writeErr :: "string \<Rightarrow> error"
  renameErr :: "string \<Rightarrow> error"

text \<open>
  The loop of \<open>TryInjectScript\<close> over the candidate entry files: the first readable
  candidate that holds the marker ends the call; the first one that \<open>injectIntoHTML\<close>
  accepts is rewritten through a temporary file; the others are passed over.
\<close>

fun injectCandidates ::
  "(rune \<Rightarrow> rune) \<Rightarrow> ioOracle \<Rightarrow> string \<Rightarrow> string list \<Rightarrow> files \<Rightarrow> panic + (error \<times> files)" where
  "injectCandidates tbl io script [] fs = Inr (None, fs)"
| "injectCandidates tbl io script (f # rest) fs =
     (case fs f of
        None \<Rightarrow> injectCandidates tbl io script rest fs
      | Some data \<Rightarrow>
          if Contains data marker then Inr (None, fs)
          else (case injectIntoHTML tbl f data script marker of
              Inl p \<Rightarrow> Inl p
            | Inr (updated, ok) \<Rightarrow>
                if \<not> ok then injectCandidates tbl io script rest fs
                else let tmp = f @ ''.tmp'' in
                  (case writeErr io tmp of
                     Some e \<Rightarrow> Inr (Some e, fs)
                   | None \<Rightarrow>
                      (case renameErr io tmp of
                         Some e \<Rightarrow> Inr (Some e, fs(tmp \<mapsto> updated))
                       | None \<Rightarrow> Inr (None, (fs(tmp := None))(f \<mapsto> updated))))))"

text \<open>
  \<open>TryInjectScript\<close>. The list of candidates is built from the project's paths and from
  what exists on disk; it is the argument \<open>entryCandidates\<close>.
\<close>

definition TryInjectScript ::
  "(rune \<Rightarrow> rune) \<Rightarrow> ioOracle \<Rightarrow> int \<Rightarrow> string list \<Rightarrow> Project option \<Rightarrow> files
     \<Rightarrow> panic + (error \<times> files)" where
  "TryInjectScript tbl io port entryCandidates p fs =
     (case p of
        None \<Rightarrow> Inr (None, fs)
      | Some pr \<Rightarrow> injectCandidates tbl io (ClientScript port (ID pr)) entryCandidates fs)"

definition noIOErrors :: ioOracle where
  "noIOErrors = \<lparr>writeErr = (\<lambda>_. None), renameErr = (\<lambda>_. None)\<rparr>"

text \<open>The files after a call that returned.\<close>

definition filesAfter :: "panic + (error \<times> files) \<Rightarrow> files" where
  "filesAfter r = (case r of Inl _ \<Rightarrow> Map.empty | Inr (_, fs) \<Rightarrow> fs)"

section \<open>The ignore policy\<close>

definition ignored :: "string list" where
  "ignored = [''/.git/'', ''/node_modules/'', ''/vendor/'', ''/.idea/'', ''/.vscode/'',
              ''/storage/'', ''/dist/'', ''/bin/'']"

definition isIgnoredPath :: "(rune \<Rightarrow> rune) \<Rightarrow> string \<Rightarrow> bool" where
  "isIgnoredPath tbl path = (let p = ToLower tbl path in list_ex (\<lambda>ig. Contains p ig) ignored)"


section \<open>The manager and the objects it points to\<close>

text \<open>
  \<open>Manager\<close> holds pointers: to the server, and through the project map to one
  \<open>projectState\<close> per project, which in turn points to a watcher, a timer and the
  channels of its clients. The goroutines (watch loops, timers, request handlers) keep
  such pointers after the manager has dropped them, so the objects live in a store:
  each kind of object has a table from addresses to values and a counter for the next
  free address. A Go map is an association list; \<open>range\<close> visits it in list order.
\<close>

record chanS =
  cap :: nat
  buf :: nat
  closed :: bool

datatype timerState = Armed | Stopped | Fired nat

record timerS =
  deadline :: nat
  tstate :: timerState
  tproject :: string

record watcherS =
  watched :: "string list"
  wclosed :: bool

record projectState =
  watcher :: nat
  clients :: "(string \<times> nat) list"
  debounce :: "nat option"

record serverS =
  addr :: string
  shut :: bool

record world =
  port :: int
  projects :: "(string \<times> nat) list"
  srv :: "nat option"
  pstates :: "nat \<Rightarrow> projectState"
  nPstates :: nat
  chans :: "nat \<Rightarrow> chanS"
  nChans :: nat
  timers :: "nat \<Rightarrow> timerS"
  nTimers :: nat
  watchers :: "nat \<Rightarrow> watcherS"
  nWatchers :: nat
  servers :: "nat \<Rightarrow> serverS"
  nServers :: nat
  loops :: "(string \<times> nat) list"

definition NewManager :: "int \<Rightarrow> world" where
  "NewManager p =
     \<lparr>port = (if p = 0 then DefaultPort else p), projects = [], srv = None,
      pstates = (\<lambda>_. \<lparr>watcher = 0, clients = [], debounce = None\<rparr>), nPstates = 0,
      chans = (\<lambda>_. \<lparr>cap = 0, buf = 0, closed = False\<rparr>), nChans = 0,
      timers = (\<lambda>_. \<lparr>deadline = 0, tstate = Stopped, tproject = []\<rparr>), nTimers = 0,
      watchers = (\<lambda>_. \<lparr>watched = [], wclosed = False\<rparr>), nWatchers = 0,
      servers = (\<lambda>_. \<lparr>addr = [], shut = False\<rparr>), nServers = 0,
      loops = []\<rparr>"

text \<open>\<open>Start\<close>: the listener is created once; while one is active the call does nothing.\<close>

definition Start :: "world \<Rightarrow> error \<times> world" where
  "Start w =
     (if srv w \<noteq> None then (None, w)
      else let a = nServers w in
        (None, w\<lparr>srv := Some a, nServers := a + 1,
                  servers := (servers w)(a := \<lparr>addr = ''127.0.0.1:'' @ Sprintf_d (port w),
                                               shut = False\<rparr>)\<rparr>))"

subsection \<open>Channels, timers, watchers\<close>

text \<open>\<open>close(ch)\<close> panics on a channel that is closed already.\<close>

definition closeChan :: "nat \<Rightarrow> world \<Rightarrow> panic + world" where
  "closeChan c w =
     (if closed (chans w c) then Inl CloseOfClosedChannel
      else Inr (w\<lparr>chans := (chans w)(c := (chans w c)\<lparr>closed := True\<rparr>)\<rparr>))"

text \<open>\<open>for _, ch := range st.clients { close(ch) }\<close>\<close>

fun closeAll :: "nat list \<Rightarrow> world \<Rightarrow> panic + world" where
  "closeAll [] w = Inr w"
| "closeAll (c # cs) w = (case closeChan c w of Inl p \<Rightarrow> Inl p | Inr w' \<Rightarrow> closeAll cs w')"

text \<open>
  \<open>select { case ch <- struct{}{}: default: }\<close>: the signal is queued when the buffer has
  room and dropped otherwise; sending on a closed channel panics.
\<close>

definition trySend :: "nat \<Rightarrow> world \<Rightarrow> panic + world" where
  "trySend c w =
     (let ch = chans w c in
      if closed ch then Inl SendOnClosedChannel
      else if buf ch < cap ch then Inr (w\<lparr>chans := (chans w)(c := ch\<lparr>buf := buf ch + 1\<rparr>)\<rparr>)
      else Inr w)"

text \<open>\<open>Timer.Stop\<close>: a timer that has neither fired nor been stopped will not fire.\<close>

definition timerStop :: "nat \<Rightarrow> world \<Rightarrow> world" where
  "timerStop t w =
     (if tstate (timers w t) = Armed
      then w\<lparr>timers := (timers w)(t := (timers w t)\<lparr>tstate := Stopped\<rparr>)\<rparr> else w)"

text \<open>
  \<open>time.AfterFunc(d, trigger)\<close> at time \<open>now\<close>: a new armed timer; the closure it will run
  is \<open>trigger\<close> of the watch loop of project \<open>pid\<close>. Time is counted in nanoseconds.
\<close>

definition Millisecond :: nat where
  "Millisecond = 1000000"

definition AfterFunc :: "nat \<Rightarrow> string \<Rightarrow> nat \<Rightarrow> world \<Rightarrow> nat \<times> world" where
  "AfterFunc d pid now w =
     (let t = nTimers w in
      (t, w\<lparr>nTimers := t + 1,
            timers := (timers w)(t := \<lparr>deadline = now + d, tstate = Armed, tproject = pid\<rparr>)\<rparr>))"

text \<open>
  The runtime, looking at its timers at time \<open>now\<close>: an armed timer whose deadline has
  passed fires, which starts its closure in a goroutine of its own.
\<close>

definition expire :: "nat \<Rightarrow> timerS \<Rightarrow> timerS" where
  "expire now tm =
     (if tstate tm = Armed \<and> deadline tm \<le> now then tm\<lparr>tstate := Fired now\<rparr> else tm)"

definition runtimeTick :: "nat \<Rightarrow> world \<Rightarrow> world" where
  "runtimeTick now w = w\<lparr>timers := (\<lambda>t. expire now (timers w t))\<rparr>"

text \<open>\<open>Watcher.Close\<close> and \<open>Watcher.Add\<close>; a closed watcher takes no more paths.\<close>

definition watcherClose :: "nat \<Rightarrow> world \<Rightarrow> error \<times> world" where
  "watcherClose a w = (None, w\<lparr>watchers := (watchers w)(a := (watchers w a)\<lparr>wclosed := True\<rparr>)\<rparr>)"

definition watcherAdd :: "nat \<Rightarrow> string \<Rightarrow> world \<Rightarrow> world" where
  "watcherAdd a path w =
     (if wclosed (watchers w a) then w
      else w\<lparr>watchers := (watchers w)(a := (watchers w a)\<lparr>watched := watched (watchers w a) @ [path]\<rparr>)\<rparr>)"

subsection \<open>Walking the directory tree\<close>

text \<open>
  What the program sees of the disk: \<open>lstat\<close> gives the tree below a path, when there is
  one, and \<open>newWatcherErr\<close> is the error of \<open>fsnotify.NewWatcher\<close>, if any. A directory
  lists its entries by name, in the order \<open>filepath.WalkDir\<close> visits them; the path of an
  entry is the directory's path, a separator and the name.
\<close>

datatype dirTree = FileNode | DirNode "(string \<times> dirTree) list"

record osEnv =
  lstat :: "string \<Rightarrow> dirTree option"
  newWatcherErr :: error

text \<open>
  The directories \<open>addWatchRecursive\<close> adds, in order: a directory whose own path
  matches the ignore policy is skipped with everything below it.
\<close>

fun watchDirs :: "(rune \<Rightarrow> rune) \<Rightarrow> string \<Rightarrow> dirTree \<Rightarrow> string list" where
  "watchDirs tbl path FileNode = []"
| "watchDirs tbl path (DirNode entries) =
     (if isIgnoredPath tbl path then []
      else path # concat (map (\<lambda>e. watchDirs tbl (path @ ''/'' @ fst e) (snd e)) entries))"

text \<open>
  \<open>addWatchRecursive\<close>. The callback returns \<open>nil\<close> or \<open>SkipDir\<close> only, so the walk
  itself never returns an error.
\<close>

definition addWatchRecursive :: "(rune \<Rightarrow> rune) \<Rightarrow> osEnv \<Rightarrow> nat \<Rightarrow> string \<Rightarrow> world \<Rightarrow> world" where
  "addWatchRecursive tbl os wa root w =
     (case lstat os root of
        None \<Rightarrow> w
      | Some tree \<Rightarrow> fold (watcherAdd wa) (watchDirs tbl root tree) w)"

subsection \<open>Enable, Disable, Stop\<close>

definition Enable :: "(rune \<Rightarrow> rune) \<Rightarrow> osEnv \<Rightarrow> Project option \<Rightarrow> world \<Rightarrow> error \<times> world" where
  "Enable tbl os p w =
     (case p of
        None \<Rightarrow> (Some ''project is nil'', w)
      | Some pr \<Rightarrow>
         (case Start w of
            (Some e, w1) \<Rightarrow> (Some e, w1)
          | (None, w1) \<Rightarrow>
              if map_of (projects w1) (ID pr) \<noteq> None then (None, w1)
              else (case newWatcherErr os of
                  Some e \<Rightarrow> (Some e, w1)
                | None \<Rightarrow>
                    let wa = nWatchers w1;
                        w2 = w1\<lparr>nWatchers := wa + 1,
                                watchers := (watchers w1)(wa := \<lparr>watched = [], wclosed = False\<rparr>)\<rparr>;
                        st = \<lparr>watcher = wa, clients = [], debounce = None\<rparr>;
                        root = Path pr
                    in if root = [] then (Some ''project path is empty'', snd (watcherClose wa w2))
                       else
                         let w3 = addWatchRecursive tbl os wa root w2;
                             a = nPstates w3
                         in (None, w3\<lparr>nPstates := a + 1,
                                      pstates := (pstates w3)(a := st),
                                      projects := AList.update (ID pr) a (projects w3),
                                      loops := loops w3 @ [(ID pr, a)]\<rparr>))))"

definition Disable :: "string \<Rightarrow> world \<Rightarrow> panic + (error \<times> world)" where
  "Disable projectID w =
     (let st = map_of (projects w) projectID;
          w1 = w\<lparr>projects := AList.delete projectID (projects w)\<rparr>
      in case st of
           None \<Rightarrow> Inr (None, w1)
         | Some a \<Rightarrow>
            (case closeAll (map snd (clients (pstates w1 a))) w1 of
               Inl p \<Rightarrow> Inl p
             | Inr w2 \<Rightarrow>
                 let w3 = (case debounce (pstates w2 a) of
                             None \<Rightarrow> w2
                           | Some t \<Rightarrow> timerStop t w2)
                 in Inr (watcherClose (watcher (pstates w3 a)) w3)))"

text \<open>\<open>for projectID := range projects { _ = m.Disable(projectID) }\<close>\<close>

fun disableAll :: "string list \<Rightarrow> world \<Rightarrow> panic + world" where
  "disableAll [] w = Inr w"
| "disableAll (projectID # rest) w =
     (case Disable projectID w of Inl p \<Rightarrow> Inl p | Inr (_, w') \<Rightarrow> disableAll rest w')"

text \<open>
  \<open>Stop\<close>. Under the lock the server pointer and the project map are taken out of the
  manager and the manager gets a fresh, empty map; then \<open>Disable\<close> is called for every
  key of the map taken out. \<open>shutdownErr\<close> is what \<open>srv.Shutdown(ctx)\<close> returns.
\<close>

definition Stop :: "error \<Rightarrow> world \<Rightarrow> panic + (error \<times> world)" where
  "Stop shutdownErr w =
     (let srv0 = srv w;
          projects0 = projects w;
          w1 = w\<lparr>srv := None, projects := []\<rparr>
      in case disableAll (map fst projects0) w1 of
           Inl p \<Rightarrow> Inl p
         | Inr w2 \<Rightarrow>
            (case srv0 of
               None \<Rightarrow> Inr (None, w2)
             | Some a \<Rightarrow>
                 Inr (shutdownErr, w2\<lparr>servers := (servers w2)(a := (servers w2 a)\<lparr>shut := True\<rparr>)\<rparr>)))"


subsection \<open>The watch loop\<close>

text \<open>
  \<open>trigger\<close>: the state of the project is looked up again in the manager; when the
  project is still tracked every registered channel is offered one signal.
\<close>

fun broadcast :: "nat list \<Rightarrow> world \<Rightarrow> panic + world" where
  "broadcast [] w = Inr w"
| "broadcast (c # cs) w = (case trySend c w of Inl p \<Rightarrow> Inl p | Inr w' \<Rightarrow> broadcast cs w')"

definition trigger :: "string \<Rightarrow> world \<Rightarrow> panic + world" where
  "trigger projectID w =
     (case map_of (projects w) projectID of
        None \<Rightarrow> Inr w
      | Some cur \<Rightarrow> broadcast (map snd (clients (pstates w cur))) w)"

text \<open>\<open>fsnotify.Event\<close> and the bits of \<open>fsnotify.Op\<close>.\<close>

record Event =
  Name :: string
  Op :: "32 word"

definition Create :: "32 word" where "Create = 1"
definition Write :: "32 word" where "Write = 2"
definition Remove :: "32 word" where "Remove = 4"
definition Rename :: "32 word" where "Rename = 8"
definition Chmod :: "32 word" where "Chmod = 16"

text \<open>\<open>debounced\<close>, called at time \<open>now\<close> by the watch loop that holds the state \<open>st\<close>.\<close>

definition debounced :: "nat \<Rightarrow> string \<Rightarrow> nat \<Rightarrow> world \<Rightarrow> world" where
  "debounced now projectID st w =
     (let w1 = (case debounce (pstates w st) of None \<Rightarrow> w | Some t \<Rightarrow> timerStop t w);
          (t', w2) = AfterFunc (250 * Millisecond) projectID now w1
      in w2\<lparr>pstates := (pstates w2)(st := (pstates w2 st)\<lparr>debounce := Some t'\<rparr>)\<rparr>)"

text \<open>
  One turn of the loop of \<open>watchLoop\<close> for an event read from \<open>st.watcher.Events\<close> at time
  \<open>now\<close>. Once the watcher is closed its channels are closed and the loop has returned.
\<close>

definition isDir :: "osEnv \<Rightarrow> string \<Rightarrow> bool" where
  "isDir os path = (case lstat os path of Some (DirNode _) \<Rightarrow> True | _ \<Rightarrow> False)"

definition watchLoopEvent ::
  "(rune \<Rightarrow> rune) \<Rightarrow> osEnv \<Rightarrow> nat \<Rightarrow> Event \<Rightarrow> string \<Rightarrow> nat \<Rightarrow> world \<Rightarrow> world" where
  "watchLoopEvent tbl os now ev projectID st w =
     (if wclosed (watchers w (watcher (pstates w st))) then w
      else
        let w1 = (if Op ev AND Create \<noteq> 0 \<and> isDir os (Name ev)
                  then addWatchRecursive tbl os (watcher (pstates w st)) (Name ev) w else w)
        in if isIgnoredPath tbl (Name ev) then w1
           else if Op ev AND (Write OR Create OR Remove OR Rename) \<noteq> 0
             then debounced now projectID st w1
           else w1)"

subsection \<open>The events route\<close>

record Request =
  Method :: string
  Query :: "(string \<times> string) list"

record Response =
  Status :: nat
  Header :: "(string \<times> string) list"
  Body :: "string list"

definition queryGet :: "Request \<Rightarrow> string \<Rightarrow> string" where
  "queryGet r k = (case map_of (Query r) k of None \<Rightarrow> [] | Some v \<Rightarrow> v)"

definition setHeader :: "string \<Rightarrow> string \<Rightarrow> Response \<Rightarrow> Response" where
  "setHeader k v rs = rs\<lparr>Header := AList.update k v (Header rs)\<rparr>"

text \<open>\<open>http.Error\<close>: a plain-text reply with the given status.\<close>

definition http_Error :: "Response \<Rightarrow> string \<Rightarrow> nat \<Rightarrow> Response" where
  "http_Error rs msg code =
     (setHeader ''X-Content-Type-Options'' ''nosniff''
        (setHeader ''Content-Type'' ''text/plain; charset=utf-8'' rs))
       \<lparr>Status := code, Body := Body rs @ [msg @ ''\<newline>'']\<rparr>"

text \<open>What a handler that has reached its loop keeps: the ids, its channel, the reply so far.\<close>

record conn =
  cProject :: string
  cClient :: string
  cChan :: nat
  cResp :: Response

text \<open>
  \<open>handleEvents\<close> up to the loop. \<open>flusher\<close> tells whether the response writer can
  stream, \<open>clientID\<close> is the result of \<open>randomID(8)\<close>. A reply is final (\<open>Inl\<close>), or the
  handler goes on to its loop (\<open>Inr\<close>) with the \<open>ready\<close> frame written.
\<close>

definition handleEventsBegin ::
  "bool \<Rightarrow> string \<Rightarrow> Request \<Rightarrow> world \<Rightarrow> (Response + conn) \<times> world" where
  "handleEventsBegin flusher clientID r w =
     (let rs = setHeader ''Access-Control-Allow-Headers'' ''Content-Type''
                (setHeader ''Access-Control-Allow-Methods'' ''GET, OPTIONS''
                  (setHeader ''Access-Control-Allow-Origin'' ''*''
                    \<lparr>Status = 0, Header = [], Body = []\<rparr>))
      in if Method r = ''OPTIONS'' then (Inl (rs\<lparr>Status := 204\<rparr>), w)
         else if Method r \<noteq> ''GET'' then (Inl (http_Error rs ''method not allowed'' 405), w)
         else
           let projectID = queryGet r ''project'' in
           if projectID = [] then (Inl (http_Error rs ''missing project'' 400), w)
           else if map_of (projects w) projectID = None
             then (Inl (http_Error rs ''live reload not enabled for this project'' 404), w)
           else if \<not> flusher then (Inl (http_Error rs ''streaming not supported'' 500), w)
           else
             let rs1 = setHeader ''X-Accel-Buffering'' ''no''
                        (setHeader ''Connection'' ''keep-alive''
                          (setHeader ''Cache-Control'' ''no-cache''
                            (setHeader ''Content-Type'' ''text/event-stream'' rs)));
                 ch = nChans w;
                 w1 = w\<lparr>nChans := ch + 1,
                        chans := (chans w)(ch := \<lparr>cap = 10, buf = 0, closed = False\<rparr>)\<rparr>
             in case map_of (projects w1) projectID of
                  None \<Rightarrow> (Inl (http_Error rs1 ''live reload not enabled'' 404), w1)
                | Some st2 \<Rightarrow>
                    let w2 = w1\<lparr>pstates := (pstates w1)(st2 := (pstates w1 st2)
                                 \<lparr>clients := AList.update clientID ch (clients (pstates w1 st2))\<rparr>)\<rparr>
                    in (Inr \<lparr>cProject = projectID, cClient = clientID, cChan = ch,
                             cResp = rs1\<lparr>Status := 200, Body := Body rs1 @ [''data: ready\<newline>\<newline>'']\<rparr>\<rparr>,
                        w2))"

text \<open>
  One turn of the handler's loop. \<open>ctxDone\<close> says that \<open>select\<close> took the case of the
  request's context. Otherwise the channel is read: a queued signal is taken and a
  \<open>reload\<close> frame written; a closed and empty channel ends the loop; an open and empty
  one leaves the handler waiting. The result says whether the loop has returned.
\<close>

definition handleEventsSelect :: "bool \<Rightarrow> conn \<Rightarrow> world \<Rightarrow> bool \<times> conn \<times> world" where
  "handleEventsSelect ctxDone c w =
     (if ctxDone then (True, c, w)
      else
        let ch = chans w (cChan c) in
        if buf ch > 0 then
          (False,
           c\<lparr>cResp := (cResp c)\<lparr>Body := Body (cResp c) @ [''data: reload\<newline>\<newline>'']\<rparr>\<rparr>,
           w\<lparr>chans := (chans w)(cChan c := ch\<lparr>buf := buf ch - 1\<rparr>)\<rparr>)
        else if closed ch then (True, c, w)
        else (False, c, w))"

text \<open>The deferred function of \<open>handleEvents\<close>, run when the loop returns.\<close>

definition handleEventsDefer :: "conn \<Rightarrow> world \<Rightarrow> panic + world" where
  "handleEventsDefer c w =
     (let w1 = (case map_of (projects w) (cProject c) of
                  None \<Rightarrow> w
                | Some cur \<Rightarrow>
                    w\<lparr>pstates := (pstates w)(cur := (pstates w cur)
                        \<lparr>clients := AList.delete (cClient c) (clients (pstates w cur))\<rparr>)\<rparr>)
      in closeChan (cChan c) w1)"

text \<open>The handler's loop under a given sequence of choices of \<open>select\<close>, nothing else running.\<close>

fun handleEventsLoop :: "bool list \<Rightarrow> conn \<Rightarrow> world \<Rightarrow> bool \<times> conn \<times> world" where
  "handleEventsLoop [] c w = (False, c, w)"
| "handleEventsLoop (d # ds) c w =
     (case handleEventsSelect d c w of
        (True, c', w') \<Rightarrow> (True, c', w')
      | (False, c', w') \<Rightarrow> handleEventsLoop ds c' w')"


subsection \<open>Runs of one watch loop\<close>

text \<open>
  An event qualifies when its path is outside the ignore policy and its kind has one of
  the four bits the loop tests.
\<close>

definition qualifying :: "(rune \<Rightarrow> rune) \<Rightarrow> Event \<Rightarrow> bool" where
  "qualifying tbl ev =
     (\<not> isIgnoredPath tbl (Name ev) \<and> Op ev AND (Write OR Create OR Remove OR Rename) \<noteq> 0)"


text \<open>
  A run of the watch loop of one project, seen from outside: at a given time either
  the loop reads an event, or the runtime looks at its timers.
\<close>

datatype step = Ev nat Event | Tick nat

fun runLoop :: "(rune \<Rightarrow> rune) \<Rightarrow> osEnv \<Rightarrow> string \<Rightarrow> nat \<Rightarrow> step list \<Rightarrow> world \<Rightarrow> world" where
  "runLoop tbl os projectID st [] w = w"
| "runLoop tbl os projectID st (Ev now ev # rest) w =
     runLoop tbl os projectID st rest (watchLoopEvent tbl os now ev projectID st w)"
| "runLoop tbl os projectID st (Tick now # rest) w =
     runLoop tbl os projectID st rest (runtimeTick now w)"

text \<open>
  A burst after an event at time \<open>prev\<close>: every further event qualifies and comes less
  than 250 ms after the event before it; the runtime may look at its timers in between.
  \<open>lastEv\<close> is the time of the last event.
\<close>

fun inBurst :: "(rune \<Rightarrow> rune) \<Rightarrow> nat \<Rightarrow> step list \<Rightarrow> bool" where
  "inBurst tbl prev [] = True"
| "inBurst tbl prev (Ev now ev # rest) =
     (prev \<le> now \<and> now < prev + 250 * Millisecond \<and> qualifying tbl ev \<and> inBurst tbl now rest)"
| "inBurst tbl prev (Tick now # rest) = (now < prev + 250 * Millisecond \<and> inBurst tbl prev rest)"

fun lastEv :: "nat \<Rightarrow> step list \<Rightarrow> nat" where
  "lastEv prev [] = prev"
| "lastEv prev (Ev now ev # rest) = lastEv now rest"
| "lastEv prev (Tick now # rest) = lastEv prev rest"

text \<open>The timers created since the store held \<open>n0\<close> of them, and those among them that fired.\<close>

definition isFired :: "timerS \<Rightarrow> bool" where
  "isFired tm = (case tstate tm of Fired _ \<Rightarrow> True | _ \<Rightarrow> False)"

definition timersSince :: "nat \<Rightarrow> world \<Rightarrow> timerS list" where
  "timersSince n0 w = map (timers w) [n0..<nTimers w]"

text \<open>
  Two shapes of the timers created since \<open>n0\<close>: the newest is the one \<open>st.debounce\<close>
  points to, armed for 250 ms after \<open>tE\<close> (or fired at \<open>tf\<close>), and all older ones are
  stopped.
\<close>

definition pendingLast :: "nat \<Rightarrow> nat \<Rightarrow> string \<Rightarrow> nat \<Rightarrow> world \<Rightarrow> bool" where
  "pendingLast n0 tE pid st w =
     (\<not> wclosed (watchers w (watcher (pstates w st))) \<and> n0 < nTimers w \<and>
      debounce (pstates w st) = Some (nTimers w - 1) \<and>
      timers w (nTimers w - 1) = \<lparr>deadline = tE + 250 * Millisecond, tstate = Armed, tproject = pid\<rparr> \<and>
      (\<forall>i. n0 \<le> i \<and> i < nTimers w - 1 \<longrightarrow> tstate (timers w i) = Stopped))"

definition firedLast :: "nat \<Rightarrow> nat \<Rightarrow> string \<Rightarrow> nat \<Rightarrow> world \<Rightarrow> bool" where
  "firedLast n0 tE pid tf w =
     (n0 < nTimers w \<and>
      timers w (nTimers w - 1) = \<lparr>deadline = tE + 250 * Millisecond, tstate = Fired tf, tproject = pid\<rparr> \<and>
      (\<forall>i. n0 \<le> i \<and> i < nTimers w - 1 \<longrightarrow> tstate (timers w i) = Stopped))"


definition stopped :: "timerS \<Rightarrow> timerS" where
  "stopped tm = (if tstate tm = Armed then tm\<lparr>tstate := Stopped\<rparr> else tm)"


section \<open>Example states\<close>

text \<open>
  A project \<open>app\<close> under \<open>/srv/app\<close>; the manager after \<open>NewManager(0)\<close> and \<open>Enable\<close>;
  then with one browser tab connected to the events route; then after a write to
  \<open>index.php\<close> has armed the debounce timer.
\<close>

definition demoProject :: Project where
  "demoProject = \<lparr>ID = ''app'', Path = ''/srv/app'', DocumentRoot = ''public''\<rparr>"

definition demoOS :: osEnv where
  "demoOS = \<lparr>lstat = (\<lambda>p. if p = ''/srv/app''
       then Some (DirNode [(''index.php'', FileNode),
                           (''node_modules'', DirNode [(''pkg'', DirNode [])])])
       else None), newWatcherErr = None\<rparr>"

definition demoRequest :: Request where
  "demoRequest = \<lparr>Method = ''GET'', Query = [(''project'', ''app'')]\<rparr>"

definition demoEnabled :: world where
  "demoEnabled = snd (Enable caseTableSample demoOS (Some demoProject) (NewManager 0))"

definition demoConnected :: world where
  "demoConnected = snd (handleEventsBegin True ''00112233aabbccdd'' demoRequest demoEnabled)"

definition demoWrite :: Event where
  "demoWrite = \<lparr>Name = ''/srv/app/index.php'', Op = Write\<rparr>"

definition demoArmed :: world where
  "demoArmed = watchLoopEvent caseTableSample demoOS 0 demoWrite ''app'' 0 demoConnected"


text \<open>
  Further examples: a second tab, and the first tab's buffer full; events of other
  kinds and on other paths; a burst and the times at which the runtime looks at its
  timers afterwards; entry files.
\<close>

definition demoTwoTabs :: world where
  "demoTwoTabs = snd (handleEventsBegin True ''8899aabbccddeeff'' demoRequest demoConnected)"

definition demoSaturated :: world where
  "demoSaturated = demoTwoTabs\<lparr>chans := (chans demoTwoTabs)(0 := (chans demoTwoTabs 0)\<lparr>buf := 10\<rparr>)\<rparr>"

definition demoChmod :: Event where
  "demoChmod = \<lparr>Name = ''/srv/app/index.php'', Op = Chmod\<rparr>"

definition demoGitWrite :: Event where
  "demoGitWrite = \<lparr>Name = ''/srv/app/.git/HEAD'', Op = Write\<rparr>"

definition demoCreate :: Event where
  "demoCreate = \<lparr>Name = ''/srv/app/index.php'', Op = Create\<rparr>"

definition demoRest :: "step list" where
  "demoRest = [Tick 100000000, Ev 200000000 demoCreate, Ev 400000000 demoWrite]"

definition demoTicks :: "nat list" where
  "demoTicks = [500000000, 660000000, 900000000]"

definition demoIndexPhp :: string where
  "demoIndexPhp = ''<?php echo 1; ?>''"

definition demoInjectedOnce :: string where
  "demoInjectedOnce = demoIndexPhp @ ''\<newline>'' @ ClientScript 35730 ''app'' @ ''\<newline>''"

definition demoTurkish :: string where
  "demoTurkish = [CHR 0xC4, CHR 0xB0] @ ''</body>''"

definition demoLatin1 :: string where
  "demoLatin1 = [CHR 0xE9, CHR 0xE9, CHR 0xE9, CHR 0xE9] @ ''</body>''"

section \<open>Properties of the channel and timer operations\<close>

lemma closeAll_open:
  "distinct cs \<Longrightarrow> \<forall>c\<in>set cs. \<not> closed (chans w c) \<Longrightarrow>
   \<exists>w'. closeAll cs w = Inr w' \<and> w' = w\<lparr>chans := chans w'\<rparr> \<and>
        (\<forall>c. chans w' c = (if c \<in> set cs then (chans w c)\<lparr>closed := True\<rparr> else chans w c))"
proof (induction cs arbitrary: w)
  case Nil
  then show ?case by simp
next
  case (Cons c cs)
  let ?w1 = "w\<lparr>chans := (chans w)(c := (chans w c)\<lparr>closed := True\<rparr>)\<rparr>"
  from Cons.prems have step: "closeChan c w = Inr ?w1"
    by (simp add: closeChan_def)
  from Cons.prems have "distinct cs" and "\<forall>d\<in>set cs. \<not> closed (chans ?w1 d)"
    by auto
  from Cons.IH [OF this] obtain w' where
    run: "closeAll cs ?w1 = Inr w'" and frame: "w' = ?w1\<lparr>chans := chans w'\<rparr>" and
    each: "\<forall>d. chans w' d = (if d \<in> set cs then (chans ?w1 d)\<lparr>closed := True\<rparr> else chans ?w1 d)"
    by blast
  have "closeAll (c # cs) w = Inr w'"
    using step run by simp
  moreover have "w' = w\<lparr>chans := chans w'\<rparr>"
    by (subst frame) simp
  moreover have "\<forall>d. chans w' d = (if d \<in> set (c # cs) then (chans w d)\<lparr>closed := True\<rparr> else chans w d)"
    using each Cons.prems by auto
  ultimately show ?case by blast
qed

lemma Disable_untracked:
  "map_of (projects w) projectID = None \<Longrightarrow> Disable projectID w = Inr (None, w)"
proof -
  assume none: "map_of (projects w) projectID = None"
  then have "projectID \<notin> fst ` set (projects w)"
    by (simp add: map_of_eq_None_iff)
  then have "AList.delete projectID (projects w) = projects w"
    by simp
  with none show ?thesis
    by (simp add: Disable_def)
qed

lemma Disable_tracked:
  assumes tracked: "map_of (projects w) projectID = Some a"
    and dist: "distinct (map snd (clients (pstates w a)))"
    and op: "\<forall>c\<in>snd ` set (clients (pstates w a)). \<not> closed (chans w c)"
  shows "\<exists>w'. Disable projectID w = Inr (None, w') \<and>
           projects w' = AList.delete projectID (projects w) \<and>
           map_of (projects w') = (map_of (projects w))(projectID := None) \<and>
           (\<forall>c\<in>snd ` set (clients (pstates w a)). closed (chans w' c)) \<and>
           (\<forall>t. debounce (pstates w a) = Some t \<longrightarrow> tstate (timers w' t) \<noteq> Armed) \<and>
           wclosed (watchers w' (watcher (pstates w a)))"
proof -
  let ?w1 = "w\<lparr>projects := AList.delete projectID (projects w)\<rparr>"
  let ?cs = "map snd (clients (pstates w a))"
  have "distinct ?cs" and "\<forall>c\<in>set ?cs. \<not> closed (chans ?w1 c)"
    using dist op by auto
  from closeAll_open [OF this] obtain w2 where
    run: "closeAll ?cs ?w1 = Inr w2" and frame: "w2 = ?w1\<lparr>chans := chans w2\<rparr>" and
    each: "\<forall>c. chans w2 c = (if c \<in> set ?cs then (chans ?w1 c)\<lparr>closed := True\<rparr> else chans ?w1 c)"
    by blast
  have ps: "pstates w2 = pstates w" and pj: "projects w2 = AList.delete projectID (projects w)"
    and tm: "timers w2 = timers w" and wt: "watchers w2 = watchers w"
    by (subst frame, simp)+
  define w3 where "w3 = (case debounce (pstates w a) of None \<Rightarrow> w2 | Some t \<Rightarrow> timerStop t w2)"
  have w3_fields: "projects w3 = projects w2" "chans w3 = chans w2" "pstates w3 = pstates w2"
    "watchers w3 = watchers w2"
    by (simp_all add: w3_def timerStop_def split: option.splits)
  have w3_timer: "\<forall>t. debounce (pstates w a) = Some t \<longrightarrow> tstate (timers w3 t) \<noteq> Armed"
    by (simp add: w3_def timerStop_def)
  have res: "Disable projectID w = Inr (watcherClose (watcher (pstates w a)) w3)"
    using tracked run by (simp add: Disable_def ps w3_def w3_fields [unfolded w3_def])
  obtain w' where w': "watcherClose (watcher (pstates w a)) w3 = (None, w')"
    and w'_def: "w' = w3\<lparr>watchers := (watchers w3)(watcher (pstates w a) :=
                     (watchers w3 (watcher (pstates w a)))\<lparr>wclosed := True\<rparr>)\<rparr>"
    by (simp add: watcherClose_def)
  have "projects w' = AList.delete projectID (projects w)"
    by (simp add: w'_def w3_fields pj)
  moreover have "\<forall>c\<in>snd ` set (clients (pstates w a)). closed (chans w' c)"
    using each by (simp add: w'_def w3_fields)
  moreover have "\<forall>t. debounce (pstates w a) = Some t \<longrightarrow> tstate (timers w' t) \<noteq> Armed"
    using w3_timer by (simp add: w'_def)
  moreover have "wclosed (watchers w' (watcher (pstates w a)))"
    by (simp add: w'_def)
  ultimately show ?thesis
    using res w' by (simp add: AList.delete_conv')
qed

lemma Start_fields:
  "fst (Start w) = None" "projects (snd (Start w)) = projects w"
  "pstates (snd (Start w)) = pstates w" "nPstates (snd (Start w)) = nPstates w"
  "watchers (snd (Start w)) = watchers w" "nWatchers (snd (Start w)) = nWatchers w"
  "loops (snd (Start w)) = loops w" "srv (snd (Start w)) \<noteq> None"
  "srv w \<noteq> None \<Longrightarrow> snd (Start w) = w"
  by (simp_all add: Start_def Let_def)

lemma Enable_tracked:
  assumes "map_of (projects w) (ID pr) = Some a"
  shows "Enable tbl os (Some pr) w = (None, snd (Start w))"
proof -
  obtain w1 where s: "Start w = (None, w1)"
    using Start_fields(1) [of w] by (cases "Start w") simp
  then have "projects w1 = projects w"
    using Start_fields(2) [of w] by simp
  with assms s show ?thesis
    by (simp add: Enable_def)
qed

lemma Enable_success_tracked:
  assumes "Enable tbl os (Some pr) w = (None, w1)"
  shows "map_of (projects w1) (ID pr) \<noteq> None \<and> srv w1 \<noteq> None"
proof -
  obtain w0 where s: "Start w = (None, w0)"
    using Start_fields(1) [of w] by (cases "Start w") simp
  have srv0: "srv w0 \<noteq> None"
    using Start_fields(8) [of w] s by simp
  have wc: "\<And>a v. srv (snd (watcherClose a v)) = srv v"
    by (simp add: watcherClose_def)
  have aw: "\<And>wa root v. srv (addWatchRecursive tbl os wa root v) = srv v"
  proof -
    fix wa root v
    have "\<And>ds u. srv (fold (watcherAdd wa) ds u) = srv u"
    proof -
      fix ds u show "srv (fold (watcherAdd wa) ds u) = srv u"
        by (induction ds arbitrary: u) (simp_all add: watcherAdd_def)
    qed
    then show "srv (addWatchRecursive tbl os wa root v) = srv v"
      by (simp add: addWatchRecursive_def split: option.splits)
  qed
  show ?thesis
    using assms s srv0
    by (auto simp: Enable_def Let_def aw AList.update_conv' split: option.splits if_splits)
qed

lemma broadcast_open:
  "distinct cs \<Longrightarrow> \<forall>c\<in>set cs. \<not> closed (chans w c) \<Longrightarrow>
   \<exists>w'. broadcast cs w = Inr w' \<and> w' = w\<lparr>chans := chans w'\<rparr> \<and>
        (\<forall>c. chans w' c =
           (if c \<in> set cs \<and> buf (chans w c) < cap (chans w c)
            then (chans w c)\<lparr>buf := buf (chans w c) + 1\<rparr> else chans w c))"
proof (induction cs arbitrary: w)
  case Nil
  then show ?case by simp
next
  case (Cons c cs)
  define w1 where "w1 = (if buf (chans w c) < cap (chans w c)
     then w\<lparr>chans := (chans w)(c := (chans w c)\<lparr>buf := buf (chans w c) + 1\<rparr>)\<rparr> else w)"
  from Cons.prems have step: "trySend c w = Inr w1"
    by (simp add: trySend_def w1_def Let_def)
  have w1_frame: "w1 = w\<lparr>chans := chans w1\<rparr>"
    by (simp add: w1_def)
  have w1_chans: "\<forall>d. chans w1 d = (if d = c \<and> buf (chans w c) < cap (chans w c)
            then (chans w c)\<lparr>buf := buf (chans w c) + 1\<rparr> else chans w d)"
    by (simp add: w1_def)
  from Cons.prems have "distinct cs" and "\<forall>d\<in>set cs. \<not> closed (chans w1 d)"
    by (auto simp: w1_def)
  from Cons.IH [OF this] obtain w' where
    run: "broadcast cs w1 = Inr w'" and frame: "w' = w1\<lparr>chans := chans w'\<rparr>" and
    each: "\<forall>d. chans w' d =
           (if d \<in> set cs \<and> buf (chans w1 d) < cap (chans w1 d)
            then (chans w1 d)\<lparr>buf := buf (chans w1 d) + 1\<rparr> else chans w1 d)"
    by blast
  have "broadcast (c # cs) w = Inr w'"
    using step run by simp
  moreover have "w' = w\<lparr>chans := chans w'\<rparr>"
    by (subst frame, subst w1_frame, simp)
  moreover have "\<forall>d. chans w' d =
           (if d \<in> set (c # cs) \<and> buf (chans w d) < cap (chans w d)
            then (chans w d)\<lparr>buf := buf (chans w d) + 1\<rparr> else chans w d)"
    using each w1_chans Cons.prems by auto
  ultimately show ?case by blast
qed

lemma op_mask_split:
  "((x::32 word) AND (a OR b OR c OR d) \<noteq> 0) =
   (x AND a \<noteq> 0 \<or> x AND b \<noteq> 0 \<or> x AND c \<noteq> 0 \<or> x AND d \<noteq> 0)"
  by (simp add: bit.conj_disj_distrib or_eq_0_iff)

lemma fold_watcherAdd_frame:
  "timers (fold (watcherAdd wa) ds u) = timers u \<and>
   nTimers (fold (watcherAdd wa) ds u) = nTimers u \<and>
   pstates (fold (watcherAdd wa) ds u) = pstates u \<and>
   projects (fold (watcherAdd wa) ds u) = projects u \<and>
   chans (fold (watcherAdd wa) ds u) = chans u \<and>
   (\<forall>a. wclosed (watchers (fold (watcherAdd wa) ds u) a) = wclosed (watchers u a))"
  by (induction ds arbitrary: u) (simp_all add: watcherAdd_def)

lemma addWatchRecursive_frame:
  "timers (addWatchRecursive tbl os wa root u) = timers u"
  "nTimers (addWatchRecursive tbl os wa root u) = nTimers u"
  "pstates (addWatchRecursive tbl os wa root u) = pstates u"
  "projects (addWatchRecursive tbl os wa root u) = projects u"
  "chans (addWatchRecursive tbl os wa root u) = chans u"
  "wclosed (watchers (addWatchRecursive tbl os wa root u) a) = wclosed (watchers u a)"
  using fold_watcherAdd_frame [of wa _ u]
  by (simp_all add: addWatchRecursive_def split: option.splits)

lemma debounced_effect:
  "nTimers (debounced now pid st w) = nTimers w + 1"
  "debounce (pstates (debounced now pid st w) st) = Some (nTimers w)"
  "watcher (pstates (debounced now pid st w) st) = watcher (pstates w st)"
  "watchers (debounced now pid st w) = watchers w"
  "timers (debounced now pid st w) (nTimers w) =
     \<lparr>deadline = now + 250 * Millisecond, tstate = Armed, tproject = pid\<rparr>"
  "i \<noteq> nTimers w \<Longrightarrow> timers (debounced now pid st w) i =
     (if debounce (pstates w st) = Some i then stopped (timers w i) else timers w i)"
  by (auto simp: debounced_def AfterFunc_def timerStop_def stopped_def Let_def split: option.splits)

lemma watchLoopEvent_qualifying:
  assumes alive: "\<not> wclosed (watchers w (watcher (pstates w st)))" and q: "qualifying tbl ev"
  shows "nTimers (watchLoopEvent tbl os now ev pid st w) = nTimers w + 1"
    "debounce (pstates (watchLoopEvent tbl os now ev pid st w) st) = Some (nTimers w)"
    "timers (watchLoopEvent tbl os now ev pid st w) (nTimers w) =
       \<lparr>deadline = now + 250 * Millisecond, tstate = Armed, tproject = pid\<rparr>"
    "i \<noteq> nTimers w \<Longrightarrow> timers (watchLoopEvent tbl os now ev pid st w) i =
       (if debounce (pstates w st) = Some i then stopped (timers w i) else timers w i)"
    "\<not> wclosed (watchers (watchLoopEvent tbl os now ev pid st w)
         (watcher (pstates (watchLoopEvent tbl os now ev pid st w) st)))"
proof -
  define w1 where "w1 = (if Op ev AND Create \<noteq> 0 \<and> isDir os (Name ev)
     then addWatchRecursive tbl os (watcher (pstates w st)) (Name ev) w else w)"
  have f: "timers w1 = timers w" "nTimers w1 = nTimers w" "pstates w1 = pstates w"
    "\<And>a. wclosed (watchers w1 a) = wclosed (watchers w a)"
    by (simp_all add: w1_def addWatchRecursive_frame)
  have run: "watchLoopEvent tbl os now ev pid st w = debounced now pid st w1"
    using alive q by (simp add: watchLoopEvent_def qualifying_def w1_def)
  show "nTimers (watchLoopEvent tbl os now ev pid st w) = nTimers w + 1"
    by (simp add: run debounced_effect(1) f)
  show "debounce (pstates (watchLoopEvent tbl os now ev pid st w) st) = Some (nTimers w)"
    by (simp add: run debounced_effect(2) f)
  show "timers (watchLoopEvent tbl os now ev pid st w) (nTimers w) =
       \<lparr>deadline = now + 250 * Millisecond, tstate = Armed, tproject = pid\<rparr>"
    using debounced_effect(5) [of now pid st w1] by (simp add: run f)
  show "i \<noteq> nTimers w \<Longrightarrow> timers (watchLoopEvent tbl os now ev pid st w) i =
       (if debounce (pstates w st) = Some i then stopped (timers w i) else timers w i)"
    using debounced_effect(6) [of i w1 now pid st] by (simp add: run f)
  show "\<not> wclosed (watchers (watchLoopEvent tbl os now ev pid st w)
         (watcher (pstates (watchLoopEvent tbl os now ev pid st w) st)))"
    using alive by (simp add: run debounced_effect(3,4) f)
qed

lemma watchLoopEvent_other:
  assumes "\<not> qualifying tbl ev"
  shows "nTimers (watchLoopEvent tbl os now ev pid st w) = nTimers w"
    "timers (watchLoopEvent tbl os now ev pid st w) = timers w"
    "pstates (watchLoopEvent tbl os now ev pid st w) = pstates w"
  using assms
  by (auto simp: watchLoopEvent_def qualifying_def addWatchRecursive_frame)

lemma runLoop_append:
  "runLoop tbl os pid st (xs @ ys) w = runLoop tbl os pid st ys (runLoop tbl os pid st xs w)"
proof (induction xs arbitrary: w)
  case Nil
  then show ?case by simp
next
  case (Cons s xs)
  then show ?case by (cases s) simp_all
qed

lemma pendingLast_first:
  assumes "\<not> wclosed (watchers w (watcher (pstates w st)))" and "qualifying tbl ev"
  shows "pendingLast (nTimers w) now pid st (watchLoopEvent tbl os now ev pid st w)"
  using watchLoopEvent_qualifying(1,2,3,5) [OF assms, where os = os and now = now and pid = pid]
  by (auto simp: pendingLast_def)

lemma pendingLast_event:
  assumes p: "pendingLast n0 tE pid st w" and q: "qualifying tbl ev"
  shows "pendingLast n0 now pid st (watchLoopEvent tbl os now ev pid st w)"
proof -
  let ?w' = "watchLoopEvent tbl os now ev pid st w"
  from p have alive: "\<not> wclosed (watchers w (watcher (pstates w st)))"
    by (simp add: pendingLast_def)
  note e = watchLoopEvent_qualifying [OF alive q, where os = os and now = now and pid = pid]
  have old: "tstate (timers ?w' i) = Stopped" if "n0 \<le> i" and "i < nTimers w" for i
  proof (cases "i = nTimers w - 1")
    case True
    with p that show ?thesis
      by (simp add: e(4) pendingLast_def stopped_def)
  next
    case False
    with p that show ?thesis
      by (simp add: e(4) pendingLast_def)
  qed
  from p have "n0 < nTimers w" by (simp add: pendingLast_def)
  with old show ?thesis
    by (simp add: pendingLast_def e(1,2,3,5))
qed

lemma pendingLast_tick:
  assumes p: "pendingLast n0 tE pid st w" and early: "now < tE + 250 * Millisecond"
  shows "pendingLast n0 tE pid st (runtimeTick now w)"
  using assms by (simp add: pendingLast_def runtimeTick_def expire_def)

lemma pendingLast_burst:
  "pendingLast n0 tE pid st w \<Longrightarrow> inBurst tbl tE steps \<Longrightarrow>
   pendingLast n0 (lastEv tE steps) pid st (runLoop tbl os pid st steps w)"
proof (induction steps arbitrary: tE w)
  case Nil
  then show ?case by simp
next
  case (Cons s steps)
  show ?case
  proof (cases s)
    case (Ev now ev)
    with Cons.prems have "pendingLast n0 now pid st (watchLoopEvent tbl os now ev pid st w)"
      and "inBurst tbl now steps"
      by (simp_all add: pendingLast_event)
    from Cons.IH [OF this] Ev show ?thesis by simp
  next
    case (Tick now)
    with Cons.prems have "pendingLast n0 tE pid st (runtimeTick now w)"
      and "inBurst tbl tE steps"
      by (simp_all add: pendingLast_tick)
    from Cons.IH [OF this] Tick show ?thesis by simp
  qed
qed

lemma firedLast_tick:
  "firedLast n0 tE pid tf w \<Longrightarrow> firedLast n0 tE pid tf (runtimeTick now w)"
  by (simp add: firedLast_def runtimeTick_def expire_def)

lemma firedLast_ticks:
  "firedLast n0 tE pid tf w \<Longrightarrow> firedLast n0 tE pid tf (runLoop tbl os pid st (map Tick ts) w)"
  by (induction ts arbitrary: w) (simp_all add: firedLast_tick)

lemma pendingLast_fires:
  assumes p: "pendingLast n0 tE pid st w" and due: "tE + 250 * Millisecond \<le> now"
  shows "firedLast n0 tE pid now (runtimeTick now w)"
  using assms by (simp add: pendingLast_def firedLast_def runtimeTick_def expire_def)

lemma pendingLast_ticks:
  "pendingLast n0 tE pid st w \<Longrightarrow> \<exists>t\<in>set ts. tE + 250 * Millisecond \<le> t \<Longrightarrow>
   \<exists>tf\<in>set ts. tE + 250 * Millisecond \<le> tf \<and>
      firedLast n0 tE pid tf (runLoop tbl os pid st (map Tick ts) w)"
proof (induction ts arbitrary: w)
  case Nil
  then show ?case by simp
next
  case (Cons t ts)
  show ?case
  proof (cases "tE + 250 * Millisecond \<le> t")
    case True
    with Cons.prems(1) have "firedLast n0 tE pid t (runtimeTick t w)"
      by (rule pendingLast_fires)
    then have "firedLast n0 tE pid t (runLoop tbl os pid st (map Tick (t # ts)) w)"
      by (simp add: firedLast_ticks)
    with True show ?thesis by auto
  next
    case False
    with Cons.prems have "pendingLast n0 tE pid st (runtimeTick t w)"
      and "\<exists>u\<in>set ts. tE + 250 * Millisecond \<le> u"
      by (auto simp: pendingLast_tick)
    from Cons.IH [OF this] show ?thesis by auto
  qed
qed

lemma firedLast_filter:
  assumes "firedLast n0 tE pid tf w"
  shows "filter isFired (timersSince n0 w) =
           [\<lparr>deadline = tE + 250 * Millisecond, tstate = Fired tf, tproject = pid\<rparr>]"
proof -
  from assms have lt: "n0 < nTimers w" by (simp add: firedLast_def)
  then obtain m where m: "nTimers w = Suc m" and "n0 \<le> m"
    by (cases "nTimers w") auto
  then have split: "[n0..<nTimers w] = [n0..<nTimers w - 1] @ [nTimers w - 1]"
    by simp
  have "filter isFired (map (timers w) [n0..<nTimers w - 1]) = []"
    using assms by (auto simp: firedLast_def isFired_def filter_empty_conv)
  with assms show ?thesis
    by (simp add: timersSince_def split firedLast_def isFired_def)
qed

lemma HasPrefix_iff: "HasPrefix s pre = (\<exists>q. s = pre @ q)"
proof
  assume "HasPrefix s pre"
  then have "s = pre @ drop (length pre) s"
    by (metis HasPrefix_def append_take_drop_id)
  then show "\<exists>q. s = pre @ q" ..
next
  assume "\<exists>q. s = pre @ q"
  then show "HasPrefix s pre"
    by (auto simp: HasPrefix_def)
qed

lemma Contains_iff: "Contains s sub = (\<exists>p q. s = p @ sub @ q)"
proof (induction s)
  case Nil
  then show ?case by auto
next
  case (Cons c s)
  show ?case
  proof
    assume "Contains (c # s) sub"
    then consider "HasPrefix (c # s) sub" | "Contains s sub" by auto
    then show "\<exists>p q. c # s = p @ sub @ q"
    proof cases
      case 1
      then obtain q where "c # s = sub @ q" by (auto simp: HasPrefix_iff)
      then have "c # s = [] @ sub @ q" by simp
      then show ?thesis by blast
    next
      case 2
      with Cons.IH obtain p q where "s = p @ sub @ q" by blast
      then have "c # s = (c # p) @ sub @ q" by simp
      then show ?thesis by blast
    qed
  next
    assume "\<exists>p q. c # s = p @ sub @ q"
    then obtain p q where eq: "c # s = p @ sub @ q" by blast
    show "Contains (c # s) sub"
    proof (cases p)
      case Nil
      with eq have "HasPrefix (c # s) sub" by (auto simp: HasPrefix_iff)
      then show ?thesis by simp
    next
      case (Cons d p')
      with eq have "s = p' @ sub @ q" by simp
      with Cons.IH have "Contains s sub" by blast
      then show ?thesis by simp
    qed
  qed
qed

lemma Contains_last_element:
  assumes sep: "c \<notin> set n"
  shows "Contains (a @ n) (g @ [c]) = Contains a (g @ [c])"
proof
  assume "Contains a (g @ [c])"
  then obtain p q where "a = p @ (g @ [c]) @ q" by (auto simp: Contains_iff)
  then have "a @ n = p @ (g @ [c]) @ (q @ n)" by simp
  then show "Contains (a @ n) (g @ [c])" unfolding Contains_iff by blast
next
  assume "Contains (a @ n) (g @ [c])"
  then obtain p q where eq0: "a @ n = (p @ g @ [c]) @ q" by (auto simp: Contains_iff)
  define z where "z = p @ g @ [c]"
  from eq0 have "a @ n = z @ q" by (simp add: z_def)
  then obtain u where "a = z @ u \<and> u @ n = q \<or> a @ u = z \<and> n = u @ q"
    unfolding append_eq_append_conv2 by blast
  then show "Contains a (g @ [c])"
  proof
    assume "a = z @ u \<and> u @ n = q"
    then have "a = p @ (g @ [c]) @ u" by (simp add: z_def)
    then show ?thesis unfolding Contains_iff by blast
  next
    assume h: "a @ u = z \<and> n = u @ q"
    show ?thesis
    proof (cases "u = []")
      case True
      with h have "a = p @ (g @ [c]) @ []" by (simp add: z_def)
      then show ?thesis unfolding Contains_iff by blast
    next
      case False
      from h have "last (a @ u) = c" by (simp add: z_def)
      with False have "last u = c" by simp
      with False have "c \<in> set u" using last_in_set by blast
      with h sep show ?thesis by simp
    qed
  qed
qed

lemma ignored_last_element:
  assumes "CHR ''/'' \<notin> set n"
  shows "list_ex (\<lambda>ig. Contains (a @ n) ig) ignored = list_ex (\<lambda>ig. Contains a ig) ignored"
proof -
  have "\<And>g. Contains (a @ n) (g @ ''/'') = Contains a (g @ ''/'')"
    using assms by (rule Contains_last_element)
  from this [of "''/.git''"] this [of "''/node_modules''"] this [of "''/vendor''"]
    this [of "''/.idea''"] this [of "''/.vscode''"] this [of "''/storage''"]
    this [of "''/dist''"] this [of "''/bin''"]
  show ?thesis by (simp add: ignored_def)
qed

lemma isIgnoredPath_last_element:
  assumes "ToLower tbl path = a @ n" and "CHR ''/'' \<notin> set n"
  shows "isIgnoredPath tbl path = list_ex (\<lambda>ig. Contains a ig) ignored"
  using assms by (simp add: isIgnoredPath_def ignored_last_element)

section \<open>Facts about the example states\<close>

lemma demo_paths:
  "\<not> isIgnoredPath caseTableSample ''/srv/app''"
  "\<not> isIgnoredPath caseTableSample ''/srv/app/node_modules''"
  "isIgnoredPath caseTableSample ''/srv/app/node_modules/pkg''"
  "\<not> isIgnoredPath caseTableSample ''/srv/app/index.php''"
  "isIgnoredPath caseTableSample ''/srv/app/.git/HEAD''"
  by code_simp+

lemma demo_digits:
  "char_of (48::nat) = CHR ''0''" "char_of (51::nat) = CHR ''3''"
  "char_of (53::nat) = CHR ''5''" "char_of (55::nat) = CHR ''7''"
  by code_simp+

lemma demo_port: "Sprintf_d 35730 = ''35730''"
  by (simp add: Sprintf_d_def demo_digits natDec.simps [of 35730] natDec.simps [of 3573]
      natDec.simps [of 357] natDec.simps [of 35] natDec.simps [of 3])

lemma demoEnabled_fields:
  "projects demoEnabled = [(''app'', 0)]"
  "pstates demoEnabled 0 = \<lparr>watcher = 0, clients = [], debounce = None\<rparr>"
  "watchers demoEnabled 0 = \<lparr>watched = [''/srv/app'', ''/srv/app/node_modules''], wclosed = False\<rparr>"
  "srv demoEnabled = Some 0"
  "servers demoEnabled 0 = \<lparr>addr = ''127.0.0.1:35730'', shut = False\<rparr>"
  "nChans demoEnabled = 0" "nTimers demoEnabled = 0" "nPstates demoEnabled = 1"
  "nWatchers demoEnabled = 1"
  by (simp_all add: demoEnabled_def Enable_def Start_def NewManager_def demoProject_def demoOS_def
      addWatchRecursive_def demo_paths demo_port watcherAdd_def Let_def DefaultPort_def)

lemma demoConnected_fields:
  "projects demoConnected = [(''app'', 0)]"
  "pstates demoConnected 0 = \<lparr>watcher = 0, clients = [(''00112233aabbccdd'', 0)], debounce = None\<rparr>"
  "chans demoConnected 0 = \<lparr>cap = 10, buf = 0, closed = False\<rparr>"
  "watchers demoConnected 0 = \<lparr>watched = [''/srv/app'', ''/srv/app/node_modules''], wclosed = False\<rparr>"
  "srv demoConnected = Some 0"
  "servers demoConnected 0 = \<lparr>addr = ''127.0.0.1:35730'', shut = False\<rparr>"
  "nTimers demoConnected = 0" "nChans demoConnected = 1"
  by (simp_all add: demoConnected_def handleEventsBegin_def demoRequest_def queryGet_def
      demoEnabled_fields Let_def)

lemma demoWrite_qualifying: "qualifying caseTableSample demoWrite"
  by (simp add: qualifying_def demoWrite_def demo_paths Write_def Create_def Remove_def Rename_def)

lemma demoArmed_fields:
  "projects demoArmed = [(''app'', 0)]"
  "pstates demoArmed 0 = \<lparr>watcher = 0, clients = [(''00112233aabbccdd'', 0)], debounce = Some 0\<rparr>"
  "chans demoArmed 0 = \<lparr>cap = 10, buf = 0, closed = False\<rparr>"
  "timers demoArmed 0 = \<lparr>deadline = 250000000, tstate = Armed, tproject = ''app''\<rparr>"
  "watchers demoArmed 0 = \<lparr>watched = [''/srv/app'', ''/srv/app/node_modules''], wclosed = False\<rparr>"
  "srv demoArmed = Some 0"
  "servers demoArmed 0 = \<lparr>addr = ''127.0.0.1:35730'', shut = False\<rparr>"
  "nTimers demoArmed = 1"
  using demoWrite_qualifying
  by (simp_all add: demoArmed_def watchLoopEvent_def qualifying_def demoWrite_def debounced_def
      AfterFunc_def Millisecond_def demoConnected_fields Let_def isDir_def demoOS_def)

section \<open>Disable and Stop\<close>

text \<open>
  Claim C8. \<open>Disable\<close> of a tracked project, whose registered channels are open and
  pairwise different (as they are when each was made by a request handler and none has
  been closed), returns without error and without panic; afterwards the id is no longer
  tracked while every other id is tracked as before, every channel registered for the
  project is closed, the debounce timer, if there was one, is no longer armed, and the
  watcher is closed. \<open>Disable\<close> of an id that is not tracked returns \<open>nil\<close> and leaves
  the whole state as it was.
\<close>

theorem Disable_teardown:
  "(map_of (projects w) projectID = Some a \<and>
    distinct (map snd (clients (pstates w a))) \<and>
    (\<forall>c\<in>snd ` set (clients (pstates w a)). \<not> closed (chans w c))
    \<longrightarrow> (\<exists>w'. Disable projectID w = Inr (None, w') \<and>
           map_of (projects w') = (map_of (projects w))(projectID := None) \<and>
           (\<forall>c\<in>snd ` set (clients (pstates w a)). closed (chans w' c)) \<and>
           (\<forall>t. debounce (pstates w a) = Some t \<longrightarrow> tstate (timers w' t) \<noteq> Armed) \<and>
           wclosed (watchers w' (watcher (pstates w a)))))
   \<and> (map_of (projects w) projectID = None \<longrightarrow> Disable projectID w = Inr (None, w))"
  using Disable_tracked [of w projectID a] Disable_untracked [of w projectID]
  by blast

theorem Disable_teardown_witness:
  "map_of (projects demoArmed) ''app'' = Some 0 \<and>
   (\<exists>w'. Disable ''app'' demoArmed = Inr (None, w') \<and>
         map_of (projects w') ''app'' = None \<and>
         closed (chans w' 0) \<and> tstate (timers w' 0) \<noteq> Armed \<and> wclosed (watchers w' 0)) \<and>
   map_of (projects demoArmed) ''blog'' = None \<and>
   Disable ''blog'' demoArmed = Inr (None, demoArmed)"
proof -
  have tracked: "map_of (projects demoArmed) ''app'' = Some 0"
    and untracked: "map_of (projects demoArmed) ''blog'' = None"
    by (simp_all add: demoArmed_fields)
  have pre: "distinct (map snd (clients (pstates demoArmed 0)))"
    "\<forall>c\<in>snd ` set (clients (pstates demoArmed 0)). \<not> closed (chans demoArmed c)"
    by (simp_all add: demoArmed_fields)
  from Disable_teardown [of demoArmed "''app''" 0] tracked pre
  obtain w' where "Disable ''app'' demoArmed = Inr (None, w')"
    "map_of (projects w') = (map_of (projects demoArmed))(''app'' := None)"
    "\<forall>c\<in>snd ` set (clients (pstates demoArmed 0)). closed (chans w' c)"
    "\<forall>t. debounce (pstates demoArmed 0) = Some t \<longrightarrow> tstate (timers w' t) \<noteq> Armed"
    "wclosed (watchers w' (watcher (pstates demoArmed 0)))"
    by blast
  then have "Disable ''app'' demoArmed = Inr (None, w') \<and> map_of (projects w') ''app'' = None \<and>
         closed (chans w' 0) \<and> tstate (timers w' 0) \<noteq> Armed \<and> wclosed (watchers w' 0)"
    by (simp add: demoArmed_fields)
  moreover from Disable_teardown [of demoArmed "''blog''"] untracked
  have "Disable ''blog'' demoArmed = Inr (None, demoArmed)"
    by blast
  ultimately show ?thesis
    using tracked untracked by blast
qed

lemma disableAll_untracked:
  "projects w = [] \<Longrightarrow> disableAll ids w = Inr w"
proof (induction ids)
  case Nil
  then show ?case by simp
next
  case (Cons projectID ids)
  then have "Disable projectID w = Inr (None, w)"
    by (simp add: Disable_untracked)
  with Cons show ?case by simp
qed

text \<open>
  Claim C1. The code does not do this. \<open>Stop\<close> empties the manager's project map
  before it calls \<open>Disable\<close>, and \<open>Disable\<close> looks its argument up in the manager's
  map: it finds nothing and returns at once. In the example state with one project, one
  connected client and an armed timer, \<open>Stop\<close> forgets the project and shuts the
  listener down, but the client's channel stays open, the timer stays armed and the
  watcher stays open.
\<close>

theorem Stop_leaves_projects_running:
  "\<exists>w'. Stop None demoArmed = Inr (None, w') \<and>
        projects w' = [] \<and> srv w' = None \<and> shut (servers w' 0) \<and>
        \<not> closed (chans w' 0) \<and> tstate (timers w' 0) = Armed \<and> \<not> wclosed (watchers w' 0)"
proof -
  have "disableAll (map fst (projects demoArmed)) (demoArmed\<lparr>srv := None, projects := []\<rparr>)
          = Inr (demoArmed\<lparr>srv := None, projects := []\<rparr>)"
    by (rule disableAll_untracked) simp
  then show ?thesis
    by (simp add: Stop_def demoArmed_fields Let_def)
qed

lemma demoSaturated_fields:
  "projects demoSaturated = [(''app'', 0)]"
  "pstates demoSaturated 0 = \<lparr>watcher = 0,
     clients = [(''00112233aabbccdd'', 0), (''8899aabbccddeeff'', 1)], debounce = None\<rparr>"
  "chans demoSaturated 0 = \<lparr>cap = 10, buf = 10, closed = False\<rparr>"
  "chans demoSaturated 1 = \<lparr>cap = 10, buf = 0, closed = False\<rparr>"
  "chans demoSaturated (Suc 0) = \<lparr>cap = 10, buf = 0, closed = False\<rparr>"
  by (simp_all add: demoSaturated_def demoTwoTabs_def handleEventsBegin_def demoRequest_def
      queryGet_def demoConnected_fields Let_def)

section \<open>Enable\<close>

text \<open>
  Claim C6. \<open>Enable\<close> for a project whose id is in the manager's project map returns
  \<open>nil\<close>. No watcher is created, no watcher is given a path (the tree is not walked),
  no watch loop is started, and the project map and the states it points to are as
  before; a further \<open>Enable\<close> of the same project returns \<open>nil\<close> and changes nothing
  at all.
\<close>

theorem Enable_idempotent:
  assumes "map_of (projects w) (ID p) = Some a"
  shows "\<exists>w'. Enable tbl os (Some p) w = (None, w') \<and>
           projects w' = projects w \<and> pstates w' = pstates w \<and> nPstates w' = nPstates w \<and>
           watchers w' = watchers w \<and> nWatchers w' = nWatchers w \<and> loops w' = loops w \<and>
           Enable tbl os (Some p) w' = (None, w')"
proof -
  let ?w' = "snd (Start w)"
  have first: "Enable tbl os (Some p) w = (None, ?w')"
    using assms by (rule Enable_tracked)
  have "map_of (projects ?w') (ID p) = Some a"
    using assms by (simp add: Start_fields)
  then have "Enable tbl os (Some p) ?w' = (None, snd (Start ?w'))"
    by (rule Enable_tracked)
  moreover have "snd (Start ?w') = ?w'"
    by (rule Start_fields(9)) (rule Start_fields(8))
  ultimately show ?thesis
    using first by (simp add: Start_fields)
qed

theorem Enable_idempotent_witness:
  "map_of (projects demoEnabled) (ID demoProject) = Some 0 \<and>
   (\<exists>w'. Enable caseTableSample demoOS (Some demoProject) demoEnabled = (None, w') \<and>
         projects w' = [(''app'', 0)] \<and> nWatchers w' = 1 \<and>
         watched (watchers w' 0) = [''/srv/app'', ''/srv/app/node_modules''])"
proof -
  have tracked: "map_of (projects demoEnabled) (ID demoProject) = Some 0"
    by (simp add: demoEnabled_fields demoProject_def)
  from Enable_idempotent [OF tracked, of caseTableSample demoOS]
  obtain w' where "Enable caseTableSample demoOS (Some demoProject) demoEnabled = (None, w')"
    "projects w' = projects demoEnabled" "watchers w' = watchers demoEnabled"
    "nWatchers w' = nWatchers demoEnabled"
    by blast
  then have "Enable caseTableSample demoOS (Some demoProject) demoEnabled = (None, w') \<and>
         projects w' = [(''app'', 0)] \<and> nWatchers w' = 1 \<and>
         watched (watchers w' 0) = [''/srv/app'', ''/srv/app/node_modules'']"
    by (simp add: demoEnabled_fields)
  with tracked show ?thesis by blast
qed

section \<open>The broadcast\<close>

lemma handleEventsBegin_channel:
  assumes "handleEventsBegin flusher clientID r w = (Inr c, w')"
  shows "chans w' (cChan c) = \<lparr>cap = 10, buf = 0, closed = False\<rparr>"
  using assms
  by (auto simp: handleEventsBegin_def Let_def split: if_splits option.splits)

text \<open>
  Claim C4. For a tracked project whose registered channels are open and pairwise
  different, the broadcast returns (it never waits and does not panic) and changes
  nothing but the channels: every registered channel with room in its buffer holds one
  more signal, every registered channel whose buffer is full is left as it is, and so
  is every channel that is not registered for the project. What happens to one channel
  does not depend on any other. The channels a request handler registers have
  capacity 10.
\<close>

theorem trigger_broadcast:
  assumes "map_of (projects w) projectID = Some cur"
    and "distinct (map snd (clients (pstates w cur)))"
    and "\<forall>c\<in>snd ` set (clients (pstates w cur)). \<not> closed (chans w c)"
  shows "(\<exists>w'. trigger projectID w = Inr w' \<and> w' = w\<lparr>chans := chans w'\<rparr> \<and>
           (\<forall>c. chans w' c =
              (if c \<in> snd ` set (clients (pstates w cur)) \<and> buf (chans w c) < cap (chans w c)
               then (chans w c)\<lparr>buf := buf (chans w c) + 1\<rparr> else chans w c))) \<and>
         (\<forall>flusher clientID r v c v'.
            handleEventsBegin flusher clientID r v = (Inr c, v') \<longrightarrow> cap (chans v' (cChan c)) = 10)"
proof -
  have "\<forall>c\<in>set (map snd (clients (pstates w cur))). \<not> closed (chans w c)"
    using assms(3) by simp
  from broadcast_open [OF assms(2) this] assms(1)
  have "\<exists>w'. trigger projectID w = Inr w' \<and> w' = w\<lparr>chans := chans w'\<rparr> \<and>
           (\<forall>c. chans w' c =
              (if c \<in> snd ` set (clients (pstates w cur)) \<and> buf (chans w c) < cap (chans w c)
               then (chans w c)\<lparr>buf := buf (chans w c) + 1\<rparr> else chans w c))"
    by (simp add: trigger_def)
  moreover have "\<forall>flusher clientID r v c v'.
            handleEventsBegin flusher clientID r v = (Inr c, v') \<longrightarrow> cap (chans v' (cChan c)) = 10"
    using handleEventsBegin_channel by fastforce
  ultimately show ?thesis by blast
qed

theorem trigger_broadcast_witness:
  "map_of (projects demoSaturated) ''app'' = Some 0 \<and>
   buf (chans demoSaturated 0) = 10 \<and> buf (chans demoSaturated 1) = 0 \<and>
   (\<exists>w'. trigger ''app'' demoSaturated = Inr w' \<and>
         buf (chans w' 0) = 10 \<and> buf (chans w' 1) = 1)"
proof -
  have tracked: "map_of (projects demoSaturated) ''app'' = Some 0"
    by (simp add: demoSaturated_fields)
  have pre: "distinct (map snd (clients (pstates demoSaturated 0)))"
    "\<forall>c\<in>snd ` set (clients (pstates demoSaturated 0)). \<not> closed (chans demoSaturated c)"
    by (simp_all add: demoSaturated_fields)
  from trigger_broadcast [OF tracked pre]
  obtain w' where run: "trigger ''app'' demoSaturated = Inr w'"
    and each: "\<forall>c. chans w' c =
       (if c \<in> snd ` set (clients (pstates demoSaturated 0)) \<and>
           buf (chans demoSaturated c) < cap (chans demoSaturated c)
        then (chans demoSaturated c)\<lparr>buf := buf (chans demoSaturated c) + 1\<rparr>
        else chans demoSaturated c)"
    by blast
  from each [rule_format, of 0] each [rule_format, of 1]
  have "buf (chans w' 0) = 10 \<and> buf (chans w' 1) = 1"
    by (simp add: demoSaturated_fields)
  with run tracked show ?thesis
    by (auto simp: demoSaturated_fields)
qed

section \<open>The watch loop\<close>

lemma demoConnected_alive:
  "\<not> wclosed (watchers demoConnected (watcher (pstates demoConnected 0)))"
  by (simp add: demoConnected_fields)

text \<open>
  Claim C7. For an event read by a watch loop that is still running (its watcher is
  not closed): when the path is outside the ignore policy and the kind has at least one
  of the bits write, create, remove, rename, the loop stops the timer it holds and
  creates a new one, armed for 250 ms after the event; in every other case (another
  kind, or an ignored path) no timer is created and no timer and no project state
  changes, so nothing new can fire.
\<close>

theorem watchLoopEvent_rearm:
  assumes "\<not> wclosed (watchers w (watcher (pstates w st)))"
  shows "let w' = watchLoopEvent tbl os now ev projectID st w;
             rearm = (\<not> isIgnoredPath tbl (Name ev) \<and>
                      (Op ev AND Write \<noteq> 0 \<or> Op ev AND Create \<noteq> 0 \<or>
                       Op ev AND Remove \<noteq> 0 \<or> Op ev AND Rename \<noteq> 0))
         in (rearm \<longrightarrow>
               nTimers w' = nTimers w + 1 \<and> debounce (pstates w' st) = Some (nTimers w) \<and>
               timers w' (nTimers w) =
                 \<lparr>deadline = now + 250 * Millisecond, tstate = Armed, tproject = projectID\<rparr> \<and>
               (\<forall>t. debounce (pstates w st) = Some t \<and> t < nTimers w
                    \<longrightarrow> tstate (timers w' t) \<noteq> Armed)) \<and>
            (\<not> rearm \<longrightarrow>
               nTimers w' = nTimers w \<and> timers w' = timers w \<and> pstates w' = pstates w)"
proof -
  have q: "qualifying tbl ev = (\<not> isIgnoredPath tbl (Name ev) \<and>
                      (Op ev AND Write \<noteq> 0 \<or> Op ev AND Create \<noteq> 0 \<or>
                       Op ev AND Remove \<noteq> 0 \<or> Op ev AND Rename \<noteq> 0))"
    by (simp only: qualifying_def op_mask_split)
  show ?thesis
  proof (cases "qualifying tbl ev")
    case True
    note e = watchLoopEvent_qualifying [OF assms True, where os = os and now = now and pid = projectID]
    have "tstate (timers (watchLoopEvent tbl os now ev projectID st w) t) \<noteq> Armed"
      if "debounce (pstates w st) = Some t" and "t < nTimers w" for t
      using that e(4) [of t] by (simp add: stopped_def)
    with True e(1,2,3) show ?thesis
      unfolding Let_def q [symmetric] by simp
  next
    case False
    with watchLoopEvent_other [OF False, of os now projectID st w] show ?thesis
      unfolding Let_def q [symmetric] by simp
  qed
qed

lemma demo_ops:
  "Write AND Write \<noteq> 0" "Create AND Create \<noteq> 0"
  "Chmod AND Write = 0" "Chmod AND Create = 0" "Chmod AND Remove = 0" "Chmod AND Rename = 0"
  "Create AND (Write OR Create OR Remove OR Rename) \<noteq> 0"
  by (simp_all add: Write_def Create_def Remove_def Rename_def Chmod_def)

theorem watchLoopEvent_rearm_witness:
  "\<not> wclosed (watchers demoConnected (watcher (pstates demoConnected 0))) \<and>
   nTimers demoConnected = 0 \<and>
   nTimers (watchLoopEvent caseTableSample demoOS 5 demoWrite ''app'' 0 demoConnected) = 1 \<and>
   nTimers (watchLoopEvent caseTableSample demoOS 5 demoChmod ''app'' 0 demoConnected) = 0 \<and>
   nTimers (watchLoopEvent caseTableSample demoOS 5 demoGitWrite ''app'' 0 demoConnected) = 0"
proof -
  have w: "\<not> isIgnoredPath caseTableSample (Name demoWrite) \<and>
       (Op demoWrite AND Write \<noteq> 0 \<or> Op demoWrite AND Create \<noteq> 0 \<or>
        Op demoWrite AND Remove \<noteq> 0 \<or> Op demoWrite AND Rename \<noteq> 0)"
    by (simp add: demoWrite_def demo_paths Write_def)
  have c: "\<not> (\<not> isIgnoredPath caseTableSample (Name demoChmod) \<and>
       (Op demoChmod AND Write \<noteq> 0 \<or> Op demoChmod AND Create \<noteq> 0 \<or>
        Op demoChmod AND Remove \<noteq> 0 \<or> Op demoChmod AND Rename \<noteq> 0))"
    by (simp add: demoChmod_def demo_ops)
  have g: "\<not> (\<not> isIgnoredPath caseTableSample (Name demoGitWrite) \<and>
       (Op demoGitWrite AND Write \<noteq> 0 \<or> Op demoGitWrite AND Create \<noteq> 0 \<or>
        Op demoGitWrite AND Remove \<noteq> 0 \<or> Op demoGitWrite AND Rename \<noteq> 0))"
    by (simp add: demoGitWrite_def demo_paths)
  from watchLoopEvent_rearm [OF demoConnected_alive, of caseTableSample demoOS 5 demoWrite "''app''"] w
  have "nTimers (watchLoopEvent caseTableSample demoOS 5 demoWrite ''app'' 0 demoConnected) = 1"
    unfolding Let_def by (auto simp: demoConnected_fields)
  moreover
  from watchLoopEvent_rearm [OF demoConnected_alive, of caseTableSample demoOS 5 demoChmod "''app''"] c
  have "nTimers (watchLoopEvent caseTableSample demoOS 5 demoChmod ''app'' 0 demoConnected) = 0"
    unfolding Let_def by (auto simp: demoConnected_fields)
  moreover
  from watchLoopEvent_rearm [OF demoConnected_alive, of caseTableSample demoOS 5 demoGitWrite "''app''"] g
  have "nTimers (watchLoopEvent caseTableSample demoOS 5 demoGitWrite ''app'' 0 demoConnected) = 0"
    unfolding Let_def by (auto simp: demoConnected_fields)
  ultimately show ?thesis
    using demoConnected_alive by (simp add: demoConnected_fields)
qed

section \<open>The ignore policy and the directory itself\<close>

text \<open>
  Claim C10, as amended. The predicate holds exactly when the lowered path contains
  one of the eight fragments, each with a separator on both sides. The last element
  of a path has no separator after it, so it never decides the predicate: when the
  lowered path is \<open>a\<close> followed by a last element \<open>n\<close> without separator, the predicate
  says what it says of \<open>a\<close> alone. So for a path that names an ignored directory
  itself, when no fragment occurs in the part of the path before that name, the
  predicate is false, and an event on it of a significant kind re-arms the timer of a
  running loop as any qualifying event does. (When a fragment does occur before the
  last element the path is ignored, whatever its last element is.)
\<close>

theorem isIgnoredPath_fragments:
  "isIgnoredPath tbl path =
     (\<exists>ig\<in>{''/.git/'', ''/node_modules/'', ''/vendor/'', ''/.idea/'', ''/.vscode/'',
              ''/storage/'', ''/dist/'', ''/bin/''}. Contains (ToLower tbl path) ig) \<and>
   (ToLower tbl path = a @ n \<and> CHR ''/'' \<notin> set n \<and>
    \<not> (\<exists>ig\<in>{''/.git/'', ''/node_modules/'', ''/vendor/'', ''/.idea/'', ''/.vscode/'',
                ''/storage/'', ''/dist/'', ''/bin/''}. Contains a ig)
    \<longrightarrow> \<not> isIgnoredPath tbl path \<and>
        (\<forall>os now ev projectID st w.
           Name ev = path \<and> \<not> wclosed (watchers w (watcher (pstates w st))) \<and>
           Op ev AND (Write OR Create OR Remove OR Rename) \<noteq> 0
           \<longrightarrow> nTimers (watchLoopEvent tbl os now ev projectID st w) = nTimers w + 1 \<and>
               debounce (pstates (watchLoopEvent tbl os now ev projectID st w) st)
                 = Some (nTimers w)))"
proof -
  have frag: "\<And>s. list_ex (\<lambda>ig. Contains s ig) ignored =
     (\<exists>ig\<in>{''/.git/'', ''/node_modules/'', ''/vendor/'', ''/.idea/'', ''/.vscode/'',
              ''/storage/'', ''/dist/'', ''/bin/''}. Contains s ig)"
    by (simp add: ignored_def)
  have first: "isIgnoredPath tbl path =
     (\<exists>ig\<in>{''/.git/'', ''/node_modules/'', ''/vendor/'', ''/.idea/'', ''/.vscode/'',
              ''/storage/'', ''/dist/'', ''/bin/''}. Contains (ToLower tbl path) ig)"
    by (simp only: isIgnoredPath_def Let_def frag)
  have second: "\<not> isIgnoredPath tbl path \<and>
        (\<forall>os now ev projectID st w.
           Name ev = path \<and> \<not> wclosed (watchers w (watcher (pstates w st))) \<and>
           Op ev AND (Write OR Create OR Remove OR Rename) \<noteq> 0
           \<longrightarrow> nTimers (watchLoopEvent tbl os now ev projectID st w) = nTimers w + 1 \<and>
               debounce (pstates (watchLoopEvent tbl os now ev projectID st w) st)
                 = Some (nTimers w))"
    if low: "ToLower tbl path = a @ n" and sep: "CHR ''/'' \<notin> set n"
      and clean: "\<not> (\<exists>ig\<in>{''/.git/'', ''/node_modules/'', ''/vendor/'', ''/.idea/'', ''/.vscode/'',
                ''/storage/'', ''/dist/'', ''/bin/''}. Contains a ig)"
  proof -
    have no: "\<not> isIgnoredPath tbl path"
      using isIgnoredPath_last_element [OF low sep] clean by (simp add: frag)
    have "nTimers (watchLoopEvent tbl os now ev projectID st w) = nTimers w + 1 \<and>
          debounce (pstates (watchLoopEvent tbl os now ev projectID st w) st) = Some (nTimers w)"
      if "Name ev = path" and alive: "\<not> wclosed (watchers w (watcher (pstates w st)))"
        and "Op ev AND (Write OR Create OR Remove OR Rename) \<noteq> 0"
      for os now ev projectID st w
    proof -
      from that no have "qualifying tbl ev"
        by (simp add: qualifying_def)
      from watchLoopEvent_qualifying(1,2) [OF alive this] show ?thesis
        by blast
    qed
    with no show ?thesis by blast
  qed
  from first second show ?thesis by blast
qed

lemma demo_lowered:
  "ToLower caseTableSample ''/srv/app/Node_Modules'' = ''/srv/app/'' @ ''node_modules''"
  by code_simp

lemma demo_parent_clean:
  "\<not> (\<exists>ig\<in>{''/.git/'', ''/node_modules/'', ''/vendor/'', ''/.idea/'', ''/.vscode/'',
              ''/storage/'', ''/dist/'', ''/bin/''}. Contains ''/srv/app/'' ig)"
  by (simp add: HasPrefix_def)

theorem isIgnoredPath_fragments_witness:
  "ToLower caseTableSample ''/srv/app/Node_Modules'' = ''/srv/app/'' @ ''node_modules'' \<and>
   CHR ''/'' \<notin> set ''node_modules'' \<and>
   \<not> isIgnoredPath caseTableSample ''/srv/app/Node_Modules'' \<and>
   isIgnoredPath caseTableSample ''/srv/app/node_modules/pkg'' \<and>
   nTimers (watchLoopEvent caseTableSample demoOS 7
      \<lparr>Name = ''/srv/app/Node_Modules'', Op = Create\<rparr> ''app'' 0 demoConnected) = 1"
proof -
  have sep: "CHR ''/'' \<notin> set ''node_modules''"
    by simp
  note t = isIgnoredPath_fragments [of caseTableSample "''/srv/app/Node_Modules''"
      "''/srv/app/''" "''node_modules''"]
  from t demo_lowered sep demo_parent_clean
  have no: "\<not> isIgnoredPath caseTableSample ''/srv/app/Node_Modules''"
    by blast
  from t demo_lowered sep demo_parent_clean
  have "\<forall>os now ev projectID st w.
           Name ev = ''/srv/app/Node_Modules'' \<and> \<not> wclosed (watchers w (watcher (pstates w st))) \<and>
           Op ev AND (Write OR Create OR Remove OR Rename) \<noteq> 0
           \<longrightarrow> nTimers (watchLoopEvent caseTableSample os now ev projectID st w) = nTimers w + 1"
    by blast
  from this [rule_format, of "\<lparr>Name = ''/srv/app/Node_Modules'', Op = Create\<rparr>" demoConnected 0
      demoOS 7 "''app''"]
  have "nTimers (watchLoopEvent caseTableSample demoOS 7
      \<lparr>Name = ''/srv/app/Node_Modules'', Op = Create\<rparr> ''app'' 0 demoConnected) = 1"
    using demoConnected_alive by (simp add: demo_ops demoConnected_fields)
  with no sep demo_lowered demo_paths(3) show ?thesis
    by blast
qed

text \<open>
  Without the condition on the part before the last element the statement fails: the
  path \<open>/srv/app/vendor/node_modules\<close> names an ignored directory itself, with no
  separator at its end, yet it contains \<open>/vendor/\<close>. The predicate is true, and a
  create event on it, read by a running loop, arms no timer.
\<close>

lemma demo_nested_ignored: "isIgnoredPath caseTableSample ''/srv/app/vendor/node_modules''"
  by code_simp

theorem isIgnoredPath_nested_counterexample:
  "isIgnoredPath caseTableSample ''/srv/app/vendor/node_modules'' \<and>
   \<not> wclosed (watchers demoConnected (watcher (pstates demoConnected 0))) \<and>
   Create AND (Write OR Create OR Remove OR Rename) \<noteq> 0 \<and>
   nTimers (watchLoopEvent caseTableSample demoOS 7
      \<lparr>Name = ''/srv/app/vendor/node_modules'', Op = Create\<rparr> ''app'' 0 demoConnected)
     = nTimers demoConnected \<and>
   debounce (pstates (watchLoopEvent caseTableSample demoOS 7
      \<lparr>Name = ''/srv/app/vendor/node_modules'', Op = Create\<rparr> ''app'' 0 demoConnected) 0) = None"
proof -
  have "\<not> qualifying caseTableSample \<lparr>Name = ''/srv/app/vendor/node_modules'', Op = Create\<rparr>"
    by (simp add: qualifying_def demo_nested_ignored)
  from watchLoopEvent_other(1,3) [OF this, of demoOS 7 "''app''" 0 demoConnected]
  show ?thesis
    using demoConnected_alive demo_nested_ignored demo_ops(7)
    by (simp add: demoConnected_fields)
qed

section \<open>Debouncing\<close>

lemma firedLast_none_armed:
  assumes "firedLast n0 tE pid tf w"
  shows "filter (\<lambda>tm. tstate tm = Armed) (timersSince n0 w) = []"
proof -
  have "tstate (timers w i) \<noteq> Armed" if "n0 \<le> i" and "i < nTimers w" for i
  proof (cases "i = nTimers w - 1")
    case True
    with assms show ?thesis by (simp add: firedLast_def)
  next
    case False
    with that assms show ?thesis by (simp add: firedLast_def)
  qed
  then show ?thesis
    by (simp add: timersSince_def filter_empty_conv)
qed

text \<open>
  Claim C3. A watch loop that is running reads a qualifying event at time \<open>now\<close> and
  then a burst: further qualifying events, each less than 250 ms after the event before
  it, while the runtime may look at its timers at any moment in between. Afterwards the
  runtime looks at its timers at the times \<open>ticks\<close>, at least one of them 250 ms or more
  after the last event. Then, of all the timers created since the first event, exactly
  one has fired: the one armed by the last event, and it fired at one of the \<open>ticks\<close>
  that is no sooner than 250 ms after the last event. None of the others is left
  armed: each was stopped when the next event re-armed the debounce. (Times are in
  nanoseconds; an event is handled at the time it arrives.)
\<close>

theorem debounce_burst:
  assumes "\<not> wclosed (watchers w (watcher (pstates w st)))"
    and "qualifying tbl ev"
    and "inBurst tbl now rest"
    and "\<exists>t\<in>set ticks. lastEv now rest + 250 * Millisecond \<le> t"
  shows "\<exists>tf\<in>set ticks. lastEv now rest + 250 * Millisecond \<le> tf \<and>
     filter isFired (timersSince (nTimers w)
        (runLoop tbl os projectID st (Ev now ev # rest @ map Tick ticks) w)) =
       [\<lparr>deadline = lastEv now rest + 250 * Millisecond, tstate = Fired tf,
         tproject = projectID\<rparr>] \<and>
     filter (\<lambda>tm. tstate tm = Armed) (timersSince (nTimers w)
        (runLoop tbl os projectID st (Ev now ev # rest @ map Tick ticks) w)) = []"
proof -
  let ?w1 = "watchLoopEvent tbl os now ev projectID st w"
  let ?w2 = "runLoop tbl os projectID st rest ?w1"
  have "pendingLast (nTimers w) now projectID st ?w1"
    using assms(1,2) by (rule pendingLast_first)
  then have "pendingLast (nTimers w) (lastEv now rest) projectID st ?w2"
    using assms(3) by (rule pendingLast_burst)
  from pendingLast_ticks [OF this assms(4)] obtain tf where
    "tf \<in> set ticks" "lastEv now rest + 250 * Millisecond \<le> tf"
    "firedLast (nTimers w) (lastEv now rest) projectID tf
       (runLoop tbl os projectID st (map Tick ticks) ?w2)"
    by blast
  then show ?thesis
    using firedLast_filter firedLast_none_armed by (auto simp: runLoop_append)
qed

lemma demoRest_burst: "inBurst caseTableSample 0 demoRest"
  using demoWrite_qualifying
  by (simp add: demoRest_def Millisecond_def qualifying_def demoCreate_def demoWrite_def demo_ops)

theorem debounce_burst_witness:
  "\<not> wclosed (watchers demoConnected (watcher (pstates demoConnected 0))) \<and>
   qualifying caseTableSample demoWrite \<and> inBurst caseTableSample 0 demoRest \<and>
   lastEv 0 demoRest = 400000000 \<and>
   (\<exists>tf. 650000000 \<le> tf \<and>
      filter isFired (timersSince 0
        (runLoop caseTableSample demoOS ''app'' 0 (Ev 0 demoWrite # demoRest @ map Tick demoTicks)
           demoConnected)) =
       [\<lparr>deadline = 650000000, tstate = Fired tf, tproject = ''app''\<rparr>])"
proof -
  have last: "lastEv 0 demoRest = 400000000"
    by (simp add: demoRest_def)
  have due: "\<exists>t\<in>set demoTicks. lastEv 0 demoRest + 250 * Millisecond \<le> t"
    by (simp add: last demoTicks_def Millisecond_def)
  from debounce_burst [OF demoConnected_alive demoWrite_qualifying demoRest_burst due,
      of demoOS "''app''"]
  have "\<exists>tf. 650000000 \<le> tf \<and>
      filter isFired (timersSince 0
        (runLoop caseTableSample demoOS ''app'' 0 (Ev 0 demoWrite # demoRest @ map Tick demoTicks)
           demoConnected)) =
       [\<lparr>deadline = 650000000, tstate = Fired tf, tproject = ''app''\<rparr>]"
    by (auto simp: last Millisecond_def demoConnected_fields)
  with demoConnected_alive demoWrite_qualifying demoRest_burst last show ?thesis
    by blast
qed

section \<open>The events route\<close>

lemma handleEventsSelect_body:
  "Body (cResp (fst (snd (handleEventsSelect ctxDone c w)))) = Body (cResp c) \<or>
   Body (cResp (fst (snd (handleEventsSelect ctxDone c w)))) =
     Body (cResp c) @ [''data: reload\<newline>\<newline>'']"
  by (simp add: handleEventsSelect_def Let_def)

lemma handleEventsLoop_body:
  "\<exists>k. Body (cResp (fst (snd (handleEventsLoop ds c w)))) =
         Body (cResp c) @ replicate k ''data: reload\<newline>\<newline>''"
proof (induction ds arbitrary: c w)
  case Nil
  have "Body (cResp c) = Body (cResp c) @ replicate 0 ''data: reload\<newline>\<newline>''"
    by simp
  then show ?case by (metis handleEventsLoop.simps(1) fst_conv snd_conv)
next
  case (Cons d ds)
  obtain fin c' w' where step: "handleEventsSelect d c w = (fin, c', w')"
    by (cases "handleEventsSelect d c w") auto
  from handleEventsSelect_body [of d c w] step
  obtain j where j: "Body (cResp c') = Body (cResp c) @ replicate j ''data: reload\<newline>\<newline>''"
  proof -
    assume r: "\<And>j. Body (cResp c') = Body (cResp c) @ replicate j ''data: reload\<newline>\<newline>'' \<Longrightarrow> thesis"
    from handleEventsSelect_body [of d c w] step
    have "Body (cResp c') = Body (cResp c) @ replicate 0 ''data: reload\<newline>\<newline>'' \<or>
          Body (cResp c') = Body (cResp c) @ replicate 1 ''data: reload\<newline>\<newline>''"
      by simp
    with r show thesis by blast
  qed
  show ?case
  proof (cases fin)
    case True
    with step j show ?thesis by auto
  next
    case False
    from Cons.IH [of c' w'] obtain k where
      "Body (cResp (fst (snd (handleEventsLoop ds c' w')))) =
         Body (cResp c') @ replicate k ''data: reload\<newline>\<newline>''"
      by blast
    with j have "Body (cResp (fst (snd (handleEventsLoop ds c' w')))) =
         Body (cResp c) @ replicate (j + k) ''data: reload\<newline>\<newline>''"
      by (simp add: replicate_add)
    with False step show ?thesis by auto
  qed
qed

text \<open>
  Claim C5. The replies of the events route, in the order the handler checks: \<open>OPTIONS\<close>
  is answered 204; any method other than \<open>OPTIONS\<close> and \<open>GET\<close> 405; a \<open>GET\<close> whose
  \<open>project\<close> parameter is missing or empty 400; a \<open>GET\<close> for a project that is not
  tracked 404; a \<open>GET\<close> for a tracked project on a writer that cannot stream 500. A
  \<open>GET\<close> for a tracked project on a streaming writer is answered 200 with the frame
  \<open>data: ready\<close> written first; every turn of the loop leaves what has been written in
  place and adds at most one \<open>data: reload\<close> frame after it, so whatever the loop does
  the body is the \<open>ready\<close> frame followed by \<open>reload\<close> frames only.
\<close>

theorem handleEvents_contract:
  "(Method r = ''OPTIONS'' \<longrightarrow>
      (\<exists>rs. handleEventsBegin flusher clientID r w = (Inl rs, w) \<and> Status rs = 204)) \<and>
   (Method r \<noteq> ''OPTIONS'' \<and> Method r \<noteq> ''GET'' \<longrightarrow>
      (\<exists>rs. handleEventsBegin flusher clientID r w = (Inl rs, w) \<and> Status rs = 405)) \<and>
   (Method r = ''GET'' \<and> queryGet r ''project'' = [] \<longrightarrow>
      (\<exists>rs. handleEventsBegin flusher clientID r w = (Inl rs, w) \<and> Status rs = 400)) \<and>
   (Method r = ''GET'' \<and> queryGet r ''project'' \<noteq> [] \<and>
    map_of (projects w) (queryGet r ''project'') = None \<longrightarrow>
      (\<exists>rs. handleEventsBegin flusher clientID r w = (Inl rs, w) \<and> Status rs = 404)) \<and>
   (Method r = ''GET'' \<and> queryGet r ''project'' \<noteq> [] \<and>
    map_of (projects w) (queryGet r ''project'') = Some a \<and> \<not> flusher \<longrightarrow>
      (\<exists>rs. handleEventsBegin flusher clientID r w = (Inl rs, w) \<and> Status rs = 500)) \<and>
   (Method r = ''GET'' \<and> queryGet r ''project'' \<noteq> [] \<and>
    map_of (projects w) (queryGet r ''project'') = Some a \<and> flusher \<longrightarrow>
      (\<exists>c w'. handleEventsBegin flusher clientID r w = (Inr c, w') \<and>
          Status (cResp c) = 200 \<and> Body (cResp c) = [''data: ready\<newline>\<newline>''] \<and>
          (\<forall>ds v. \<exists>k. Body (cResp (fst (snd (handleEventsLoop ds c v)))) =
                ''data: ready\<newline>\<newline>'' # replicate k ''data: reload\<newline>\<newline>''))) \<and>
   (Body (cResp (fst (snd (handleEventsSelect ctxDone c0 v0)))) = Body (cResp c0) \<or>
    Body (cResp (fst (snd (handleEventsSelect ctxDone c0 v0)))) =
      Body (cResp c0) @ [''data: reload\<newline>\<newline>''])"
proof -
  have ok: "\<exists>c w'. handleEventsBegin flusher clientID r w = (Inr c, w') \<and>
          Status (cResp c) = 200 \<and> Body (cResp c) = [''data: ready\<newline>\<newline>''] \<and>
          (\<forall>ds v. \<exists>k. Body (cResp (fst (snd (handleEventsLoop ds c v)))) =
                ''data: ready\<newline>\<newline>'' # replicate k ''data: reload\<newline>\<newline>'')"
    if "Method r = ''GET''" "queryGet r ''project'' \<noteq> []"
      "map_of (projects w) (queryGet r ''project'') = Some a" "flusher"
  proof -
    from that obtain c w' where b: "handleEventsBegin flusher clientID r w = (Inr c, w')"
      and s: "Status (cResp c) = 200" and body: "Body (cResp c) = [''data: ready\<newline>\<newline>'']"
      by (simp add: handleEventsBegin_def Let_def setHeader_def)
    have "\<exists>k. Body (cResp (fst (snd (handleEventsLoop ds c v)))) =
                ''data: ready\<newline>\<newline>'' # replicate k ''data: reload\<newline>\<newline>''" for ds v
      using handleEventsLoop_body [of ds c v] by (simp add: body)
    with b s body show ?thesis by blast
  qed
  have errs:
    "Method r = ''OPTIONS'' \<longrightarrow>
      (\<exists>rs. handleEventsBegin flusher clientID r w = (Inl rs, w) \<and> Status rs = 204)"
    "Method r \<noteq> ''OPTIONS'' \<and> Method r \<noteq> ''GET'' \<longrightarrow>
      (\<exists>rs. handleEventsBegin flusher clientID r w = (Inl rs, w) \<and> Status rs = 405)"
    "Method r = ''GET'' \<and> queryGet r ''project'' = [] \<longrightarrow>
      (\<exists>rs. handleEventsBegin flusher clientID r w = (Inl rs, w) \<and> Status rs = 400)"
    "Method r = ''GET'' \<and> queryGet r ''project'' \<noteq> [] \<and>
      map_of (projects w) (queryGet r ''project'') = None \<longrightarrow>
      (\<exists>rs. handleEventsBegin flusher clientID r w = (Inl rs, w) \<and> Status rs = 404)"
    "Method r = ''GET'' \<and> queryGet r ''project'' \<noteq> [] \<and>
      map_of (projects w) (queryGet r ''project'') = Some a \<and> \<not> flusher \<longrightarrow>
      (\<exists>rs. handleEventsBegin flusher clientID r w = (Inl rs, w) \<and> Status rs = 500)"
    by (simp_all add: handleEventsBegin_def Let_def http_Error_def setHeader_def)
  from errs ok handleEventsSelect_body [of ctxDone c0 v0] show ?thesis
    by blast
qed

theorem handleEvents_contract_witness:
  "(\<exists>rs. handleEventsBegin True ''00112233aabbccdd'' \<lparr>Method = ''OPTIONS'', Query = []\<rparr> demoEnabled
           = (Inl rs, demoEnabled) \<and> Status rs = 204) \<and>
   (\<exists>rs. handleEventsBegin True ''00112233aabbccdd'' \<lparr>Method = ''POST'', Query = []\<rparr> demoEnabled
           = (Inl rs, demoEnabled) \<and> Status rs = 405) \<and>
   (\<exists>rs. handleEventsBegin True ''00112233aabbccdd'' \<lparr>Method = ''GET'', Query = []\<rparr> demoEnabled
           = (Inl rs, demoEnabled) \<and> Status rs = 400) \<and>
   (\<exists>rs. handleEventsBegin True ''00112233aabbccdd''
             \<lparr>Method = ''GET'', Query = [(''project'', ''blog'')]\<rparr> demoEnabled
           = (Inl rs, demoEnabled) \<and> Status rs = 404) \<and>
   (\<exists>rs. handleEventsBegin False ''00112233aabbccdd'' demoRequest demoEnabled
           = (Inl rs, demoEnabled) \<and> Status rs = 500) \<and>
   (\<exists>c w'. handleEventsBegin True ''00112233aabbccdd'' demoRequest demoEnabled = (Inr c, w') \<and>
           Status (cResp c) = 200 \<and> Body (cResp c) = [''data: ready\<newline>\<newline>''])"
proof -
  note t = handleEvents_contract [where w = demoEnabled and clientID = "''00112233aabbccdd''"]
  have 1: "\<exists>rs. handleEventsBegin True ''00112233aabbccdd'' \<lparr>Method = ''OPTIONS'', Query = []\<rparr> demoEnabled
           = (Inl rs, demoEnabled) \<and> Status rs = 204"
    using t [where r = "\<lparr>Method = ''OPTIONS'', Query = []\<rparr>" and flusher = True] by simp
  have 2: "\<exists>rs. handleEventsBegin True ''00112233aabbccdd'' \<lparr>Method = ''POST'', Query = []\<rparr> demoEnabled
           = (Inl rs, demoEnabled) \<and> Status rs = 405"
    using t [where r = "\<lparr>Method = ''POST'', Query = []\<rparr>" and flusher = True] by simp
  have 3: "\<exists>rs. handleEventsBegin True ''00112233aabbccdd'' \<lparr>Method = ''GET'', Query = []\<rparr> demoEnabled
           = (Inl rs, demoEnabled) \<and> Status rs = 400"
    using t [where r = "\<lparr>Method = ''GET'', Query = []\<rparr>" and flusher = True]
    by (simp add: queryGet_def)
  have 4: "\<exists>rs. handleEventsBegin True ''00112233aabbccdd''
             \<lparr>Method = ''GET'', Query = [(''project'', ''blog'')]\<rparr> demoEnabled
           = (Inl rs, demoEnabled) \<and> Status rs = 404"
    using t [where r = "\<lparr>Method = ''GET'', Query = [(''project'', ''blog'')]\<rparr>" and flusher = True]
    by (simp add: queryGet_def demoEnabled_fields)
  have 5: "\<exists>rs. handleEventsBegin False ''00112233aabbccdd'' demoRequest demoEnabled
           = (Inl rs, demoEnabled) \<and> Status rs = 500"
    using t [where r = demoRequest and flusher = False and a = 0]
    by (simp add: queryGet_def demoEnabled_fields demoRequest_def)
  have 6: "\<exists>c w'. handleEventsBegin True ''00112233aabbccdd'' demoRequest demoEnabled = (Inr c, w') \<and>
           Status (cResp c) = 200 \<and> Body (cResp c) = [''data: ready\<newline>\<newline>'']"
    using t [where r = demoRequest and flusher = True and a = 0]
    by (simp add: queryGet_def demoEnabled_fields demoRequest_def) blast
  from 1 2 3 4 5 6 show ?thesis by blast
qed

section \<open>Injection into the entry file\<close>

lemma demoScript:
  "ClientScript 35730 ''app'' =
     ''<script>\<newline>(function(){\<newline>  try {\<newline>    var es = new EventSource(''
     @ [CHR 0x27] @ ''http://127.0.0.1:35730/events?project=app'' @ [CHR 0x27]
     @ '');\<newline>    es.onmessage = function(){ location.reload(); };\<newline>''
     @ ''    es.onerror = function(){};\<newline>  } catch (e) {}\<newline>})();\<newline></script>''"
  by (simp add: ClientScript_def EndpointURL_def demo_port)

lemma demoIndexPhp_facts:
  "\<not> Contains demoIndexPhp marker"
  "injectIntoHTML caseTableSample ''/srv/app/index.php'' demoIndexPhp (ClientScript 35730 ''app'') marker
     = Inr (demoInjectedOnce, True)"
  unfolding demoInjectedOnce_def demoScript by code_simp+

lemma demoInjectedOnce_facts:
  "\<not> Contains demoInjectedOnce marker"
  "injectIntoHTML caseTableSample ''/srv/app/index.php'' demoInjectedOnce (ClientScript 35730 ''app'') marker
     = Inr (demoInjectedOnce @ ''\<newline>'' @ ClientScript 35730 ''app'' @ ''\<newline>'', True)"
  unfolding demoInjectedOnce_def demoScript by code_simp+

text \<open>
  Claim C2. The code does not do this for a PHP entry file that ends outside a PHP
  block. For \<open>index.php\<close> with the content \<open><?php echo 1; ?>\<close> the first call appends
  a line break, the script and a line break, and nothing else: the content written
  does not contain the marker. The second call therefore does not stop at the marker
  check and appends the script once more; the file after the second call differs from
  the file after the first. (The other three branches of \<open>injectIntoHTML\<close> that
  change the content write the marker.)
\<close>

theorem TryInjectScript_twice_php:
  "let f = ''/srv/app/index.php'';
       run = TryInjectScript caseTableSample noIOErrors 35730 [f] (Some demoProject);
       first = run [f \<mapsto> demoIndexPhp];
       second = run (filesAfter first)
   in fst (projr first) = None \<and> filesAfter first f = Some demoInjectedOnce \<and>
      \<not> Contains demoInjectedOnce marker \<and>
      fst (projr second) = None \<and>
      filesAfter second f =
        Some (demoInjectedOnce @ ''\<newline>'' @ ClientScript 35730 ''app'' @ ''\<newline>'') \<and>
      filesAfter second f \<noteq> filesAfter first f"
proof -
  let ?f = "''/srv/app/index.php''"
  let ?run = "TryInjectScript caseTableSample noIOErrors 35730 [?f] (Some demoProject)"
  let ?twice = "demoInjectedOnce @ ''\<newline>'' @ ClientScript 35730 ''app'' @ ''\<newline>''"
  have step: "?run fs = Inr (None, (fs(?f @ ''.tmp'' := None))(?f \<mapsto> out))"
    if "fs ?f = Some data" and "\<not> Contains data marker"
      and "injectIntoHTML caseTableSample ?f data (ClientScript 35730 ''app'') marker = Inr (out, True)"
    for fs data out
    using that by (simp add: TryInjectScript_def demoProject_def noIOErrors_def)
  define fs1 where "fs1 = ([?f \<mapsto> demoIndexPhp](?f @ ''.tmp'' := None))(?f \<mapsto> demoInjectedOnce)"
  have first: "?run [?f \<mapsto> demoIndexPhp] = Inr (None, fs1)"
    unfolding fs1_def
    by (rule step [of "[?f \<mapsto> demoIndexPhp]" demoIndexPhp demoInjectedOnce,
          OF _ demoIndexPhp_facts]) simp
  have fs1_f: "fs1 ?f = Some demoInjectedOnce"
    by (simp add: fs1_def)
  have second: "?run fs1 = Inr (None, (fs1(?f @ ''.tmp'' := None))(?f \<mapsto> ?twice))"
    by (rule step [of fs1 demoInjectedOnce ?twice, OF fs1_f demoInjectedOnce_facts])
  have after1: "filesAfter (?run [?f \<mapsto> demoIndexPhp]) = fs1"
    by (simp add: first filesAfter_def)
  have after2: "filesAfter (?run fs1) ?f = Some ?twice"
    by (simp add: second filesAfter_def)
  have differ: "Some ?twice \<noteq> Some demoInjectedOnce"
    by simp
  show ?thesis
    unfolding Let_def after1 after2 fs1_f
    using demoInjectedOnce_facts(1) differ by (simp add: first second)
qed

lemma rangeRunes_Nil: "rangeRunes [] = []"
  by (simp add: rangeRunes.simps)

lemma rangeRunes_Cons:
  "rangeRunes (b # s) =
     fst (DecodeRune (b # s)) # rangeRunes (drop (max 1 (snd (DecodeRune (b # s)))) (b # s))"
  by (subst rangeRunes.simps) simp

lemma lowered_bytes:
  "ToLower caseTableSample demoTurkish = string_of [105, 60, 47, 98, 111, 100, 121, 62]"
  "ToLower caseTableSample demoLatin1 =
     string_of [239, 191, 189, 239, 191, 189, 239, 191, 189, 239, 191, 189,
                60, 47, 98, 111, 100, 121, 62]"
  by (simp_all add: ToLower_def isASCII_def demoTurkish_def demoLatin1_def strings_Map_def
      bytes_of_def rangeRunes_Nil rangeRunes_Cons DecodeRune_def leadByte_def contByte_def
      EncodeRune_def unicode_ToLower_def caseTableSample_def RuneError_def MaxRune_def)

lemma lowered_index:
  "LastIndex demoTurkish ''</body>'' = 2"
  "LastIndex demoLatin1 ''</body>'' = 4"
  "LastIndex (string_of [105, 60, 47, 98, 111, 100, 121, 62]) ''</body>'' = 1"
  "LastIndex (string_of [239, 191, 189, 239, 191, 189, 239, 191, 189, 239, 191, 189,
                         60, 47, 98, 111, 100, 121, 62]) ''</body>'' = 12"
  unfolding demoTurkish_def demoLatin1_def by code_simp+

text \<open>
  Claim C9. The code does not do this for every content: the place of the closing
  body tag is searched in the lowered copy of the content, and lowering can change
  the number of bytes. In a page that holds the Turkish capital letter U+0130 (two
  bytes, lowered to the one byte \<open>i\<close>) before \<open></body>\<close>, the tag starts at byte 2 of
  the content but the block is inserted at byte 1, between the two bytes of the
  letter. In a page in Latin-1 with four accented letters before the tag, each byte
  that is not UTF-8 is lowered to the three bytes of U+FFFD, the index found is beyond
  the end of the content and the call panics.
\<close>

theorem injectIntoHTML_lowered_offset:
  "LastIndex demoTurkish ''</body>'' = 2 \<and>
   injectIntoHTML caseTableSample ''index.html'' demoTurkish script mk =
     Inr ([CHR 0xC4] @ injectBlock mk script @ [CHR 0xB0] @ ''</body>'', True) \<and>
   LastIndex demoLatin1 ''</body>'' = 4 \<and>
   injectIntoHTML caseTableSample ''index.html'' demoLatin1 script mk = Inl SliceOutOfRange"
proof -
  have "injectIntoHTML caseTableSample ''index.html'' demoTurkish script mk =
     Inr ([CHR 0xC4] @ injectBlock mk script @ [CHR 0xB0] @ ''</body>'', True)"
    by (simp add: injectIntoHTML_def lowered_bytes(1) lowered_index(3)) (simp add: demoTurkish_def)
  moreover have "injectIntoHTML caseTableSample ''index.html'' demoLatin1 script mk = Inl SliceOutOfRange"
    by (simp add: injectIntoHTML_def lowered_bytes(2) lowered_index(4)) (simp add: demoLatin1_def)
  ultimately show ?thesis
    using lowered_index(1,2) by simp
qed

end
